theory Spec2Isabelle
  imports Complex_Main
begin

section \<open>The download scheduler of \<open>USBSelectorApp\<close> (src/main.py)\<close>

text \<open>
  Python exceptions are values. \<open>IndexError\<close> is what \<open>self.progress_bars[bar_index]\<close>
  raises out of range, \<open>ZeroDivisionError\<close> what a float division by \<open>0.0\<close> raises;
  \<open>Raised e\<close> is any other exception, with the text \<open>str(e)\<close>.
\<close>

datatype error = IndexError | ZeroDivisionError | Raised string

text \<open>
  An element of \<open>download_urls\<close> is the tuple \<open>(url, file_path, file_name)\<close>.
\<close>

type_synonym task = "string \<times> string \<times> string"

text \<open>
  A \<open>DownloadWorker\<close>. Its \<open>signal\<close> and \<open>progress_bar\<close> fields are both determined by
  the \<open>bar_index\<close> it was created for: the signals are connected to
  \<open>partial(update_progress, bar_index)\<close> and \<open>partial(self.on_download_complete, bar_index)\<close>,
  and the bar is \<open>self.progress_bars[bar_index]\<close>.
\<close>

record worker =
  worker_url :: string
  file_path :: string
  file_name :: string
  bar_index :: nat

text \<open>
  An entry of the processed catalog (the dictionaries built by \<open>fetch_data\<close>). The field
  \<open>size\<close> is called \<open>size_field\<close> here. \<open>size_gb\<close> is a JSON number.
\<close>

datatype json_number = JInt int | JFloat real

record item =
  category :: string
  title :: string
  duration :: string
  filetype :: string
  size_field :: string
  size_gb :: json_number
  url :: string

text \<open>
  The fields of \<open>USBSelectorApp\<close> that the download stage reads or writes, during a run.
  \<open>__init__\<close> sets \<open>completed_downloads\<close>, \<open>active_downloads\<close> and \<open>download_queue\<close> to
  \<open>None\<close>; \<open>start_downloads\<close> overwrites all three before any worker, and so any handler,
  exists. \<open>progress_bars\<close> is the length of the list of \<open>QProgressBar\<close> widgets.
  \<open>threadpool\<close> holds the workers handed to \<open>QThreadPool.start\<close> whose \<open>run\<close> has not
  returned yet (the pool runs at most \<open>maxThreadCount\<close> of them at a time, and
  \<open>maxThreadCount\<close> is set together with \<open>concurrent_downloads\<close>). \<open>stacked_index\<close> is
  the current index of the stacked widget, \<open>stage6_calls\<close> counts the calls of
  \<open>go_to_stage6\<close>, and \<open>fs\<close> lists the paths that exist on disk.
\<close>

record app =
  use_cache :: bool
  concurrent_downloads :: int
  selected_content_items :: "item list"
  download_queue :: "task list"
  active_downloads :: "worker list"
  completed_downloads :: int
  progress_bars :: nat
  threadpool :: "worker list"
  stacked_index :: nat
  stage6_calls :: nat
  fs :: "string list"

definition go_to_stage6 :: "app \<Rightarrow> app" where
  "go_to_stage6 s = s\<lparr>stacked_index := 5, stage6_calls := Suc (stage6_calls s)\<rparr>"

text \<open>
  \<open>start_next_download\<close>: return at once on an empty queue; otherwise pop the head, build
  the worker for \<open>bar_index\<close> (reading \<open>progress_bars[bar_index]\<close>), append it to
  \<open>active_downloads\<close> and hand it to the thread pool.
\<close>

definition start_next_download :: "app \<Rightarrow> nat \<Rightarrow> error + app" where
  "start_next_download s i =
     (case download_queue s of
        [] \<Rightarrow> Inr s
      | (u, p, n) # rest \<Rightarrow>
          if i < progress_bars s then
            Inr (s\<lparr>download_queue := rest,
                   active_downloads := active_downloads s @
                     [\<lparr>worker_url = u, file_path = p, file_name = n, bar_index = i\<rparr>],
                   threadpool := threadpool s @
                     [\<lparr>worker_url = u, file_path = p, file_name = n, bar_index = i\<rparr>]\<rparr>)
          else Inl IndexError)"

text \<open>
  The body of the \<open>for i in range(...)\<close> loop of \<open>start_downloads\<close>: one more progress bar,
  then \<open>start_next_download(i)\<close>.
\<close>

fun start_loop :: "app \<Rightarrow> nat list \<Rightarrow> error + app" where
  "start_loop s [] = Inr s"
| "start_loop s (i # js) =
     (case start_next_download (s\<lparr>progress_bars := Suc (progress_bars s)\<rparr>) i of
        Inl e \<Rightarrow> Inl e
      | Inr s' \<Rightarrow> start_loop s' js)"

text \<open>
  \<open>start_downloads\<close>. The bound of \<open>range\<close> is computed once, before the first pop;
  \<open>range\<close> of a number below 1 is empty.
\<close>

definition start_downloads :: "app \<Rightarrow> task list \<Rightarrow> error + app" where
  "start_downloads s download_urls =
     start_loop
       (s\<lparr>download_queue := download_urls, active_downloads := [], completed_downloads := 0\<rparr>)
       [0 ..< nat (min (concurrent_downloads s) (int (length download_urls)))]"

text \<open>
  \<open>on_download_complete\<close>, the slot of a worker's \<open>result\<close> signal. The message is only
  printed.
\<close>

definition on_download_complete :: "app \<Rightarrow> nat \<Rightarrow> string \<Rightarrow> error + app" where
  "on_download_complete s i message =
     (case start_next_download s i of
        Inl e \<Rightarrow> Inl e
      | Inr s1 \<Rightarrow>
          let s2 = s1\<lparr>completed_downloads := completed_downloads s1 + 1\<rparr>
          in Inr (if completed_downloads s2 = int (length (selected_content_items s2))
                  then go_to_stage6 s2 else s2))"

text \<open>
  The end of a worker: the worker of bar \<open>i\<close> leaves the thread pool and its \<open>result\<close>
  signal reaches \<open>on_download_complete\<close>. \<open>busy s i\<close> says that a worker of bar \<open>i\<close> is in
  the pool, \<open>feasible s evs\<close> that every event of \<open>evs\<close> comes from a worker that is in the
  pool when the event is delivered.
\<close>

fun remove_bar :: "nat \<Rightarrow> worker list \<Rightarrow> worker list" where
  "remove_bar i [] = []"
| "remove_bar i (w # ws) = (if bar_index w = i then ws else w # remove_bar i ws)"

definition busy :: "app \<Rightarrow> nat \<Rightarrow> bool" where
  "busy s i = (i \<in> set (map bar_index (threadpool s)))"

definition worker_done :: "app \<Rightarrow> nat \<Rightarrow> string \<Rightarrow> error + app" where
  "worker_done s i message =
     on_download_complete (s\<lparr>threadpool := remove_bar i (threadpool s)\<rparr>) i message"

fun run_events :: "app \<Rightarrow> (nat \<times> string) list \<Rightarrow> error + app" where
  "run_events s [] = Inr s"
| "run_events s ((i, m) # evs) =
     (case worker_done s i m of Inl e \<Rightarrow> Inl e | Inr s' \<Rightarrow> run_events s' evs)"

fun feasible :: "app \<Rightarrow> (nat \<times> string) list \<Rightarrow> bool" where
  "feasible s [] = True"
| "feasible s ((i, m) # evs) =
     (busy s i \<and> (case worker_done s i m of Inl e \<Rightarrow> False | Inr s' \<Rightarrow> feasible s' evs))"

text \<open>
  The state \<open>__init__\<close> leaves behind, as far as the download stage is concerned: the
  cache box checked, three concurrent downloads, nothing selected, no progress bar, an
  idle thread pool, the first page shown. \<open>paths\<close> is what exists on disk.
\<close>

definition init_app :: "string list \<Rightarrow> app" where
  "init_app paths =
     \<lparr>use_cache = True, concurrent_downloads = 3, selected_content_items = [],
      download_queue = [], active_downloads = [], completed_downloads = 0,
      progress_bars = 0, threadpool = [], stacked_index = 0, stage6_calls = 0,
      fs = paths\<rparr>"

text \<open>
  \<open>mk_workers k ts\<close> are the workers of the tasks \<open>ts\<close> on the bars \<open>k, k + 1, ...\<close>: what
  the loop of \<open>start_downloads\<close> creates. It is used to state results only.
\<close>

fun mk_workers :: "nat \<Rightarrow> task list \<Rightarrow> worker list" where
  "mk_workers k [] = []"
| "mk_workers k ((u, p, n) # ts) =
     \<lparr>worker_url = u, file_path = p, file_name = n, bar_index = k\<rparr> # mk_workers (Suc k) ts"

subsection \<open>\<open>go_to_stage5\<close>\<close>

text \<open>
  The element of the list comprehension of \<open>go_to_stage5\<close>, with \<open>cache_folder = "cache"\<close>.
\<close>

definition cache_folder :: string where
  "cache_folder = ''cache''"

definition task_of :: "item \<Rightarrow> task" where
  "task_of it =
     (''https://cdn.skyy.cc/'' @ url it,
      cache_folder @ ''/'' @ category it @ ''/'' @ title it @ ''.mp4'',
      title it)"

text \<open>
  \<open>shutil.rmtree(d, ignore_errors=True)\<close> removes \<open>d\<close> and everything below it, or fails
  silently; \<open>os.makedirs\<close> and \<open>os.mkdir\<close> raise \<open>OSError\<close> when the directory exists or
  cannot be created. Whether they fail for a reason other than an existing path is given
  by \<open>os_env\<close>. After a failure the function prints and returns; which of the four
  directories were created before it is not modelled.
\<close>

record os_env =
  rmtree_fails :: bool
  mkdir_fails :: bool

definition rmtree :: "string \<Rightarrow> string list \<Rightarrow> string list" where
  "rmtree d paths = filter (\<lambda>p. \<not> (p = d \<or> take (Suc (length d)) p = d @ ''/'')) paths"

definition go_to_stage5 :: "os_env \<Rightarrow> app \<Rightarrow> error + app" where
  "go_to_stage5 os s =
     (let s1 = s\<lparr>stacked_index := 4\<rparr>;
          s2 = (if rmtree_fails os then s1 else s1\<lparr>fs := rmtree cache_folder (fs s1)\<rparr>)
      in if mkdir_fails os \<or> cache_folder \<in> set (fs s2) then Inr s2
         else start_downloads
                (s2\<lparr>fs := fs s2 @ [cache_folder, cache_folder @ ''/movies'',
                                     cache_folder @ ''/music'', cache_folder @ ''/gaming'']\<rparr>)
                (map task_of (selected_content_items s2)))"

section \<open>\<open>DownloadWorker.run\<close> and \<open>update_progress\<close>\<close>

text \<open>
  What a worker emits: \<open>progress.emit(downloaded_mb, total_mb, file_name, progress_bar)\<close>,
  the bar given by its index, and \<open>result.emit(message)\<close>. The megabyte values are Python
  floats; they are modelled as reals, so the rounding of float arithmetic is not, and no
  statement below depends on the values carried by a progress signal other than the two
  zeros of an empty body.
\<close>

datatype signal = Progress real real string nat | Result string

text \<open>
  The answer to \<open>requests.get(url, stream=True)\<close>. \<open>content_length\<close> is
  \<open>headers.get('content-length')\<close> together with what \<open>int()\<close> makes of it: \<open>None\<close> without
  the header, \<open>Some (Inl e)\<close> when \<open>int()\<close> raises \<open>e\<close>, \<open>Some (Inr n)\<close> when it gives \<open>n\<close>.
  \<open>chunks\<close> are the pieces \<open>iter_content(chunk_size=4096)\<close> yields; after them the body
  ends, or reading it raises \<open>stream_error\<close>. Bytes are \<open>char\<close>s. An exception is given
  by its text \<open>str(e)\<close>.
\<close>

record response =
  status_code :: int
  content_length :: "(string + int) option"
  chunks :: "string list"
  stream_error :: "string option"

text \<open>
  The destination. \<open>open(file_path, 'wb')\<close> raises \<open>open_error\<close> or creates the file empty.
  The \<open>k\<close>-th \<open>f.write\<close> of the run raises \<open>write_error k\<close> or accepts its data. The file
  object is buffered, so accepted data need not be on disk yet: the \<open>close\<close> at the end of
  the \<open>with\<close> statement flushes it, and raises \<open>close_error\<close> when that fails. When a write
  or the close has raised, what is on disk is the first \<open>flushed\<close> bytes of the data handed
  to \<open>f.write\<close>; when neither has, it is all of that data.
\<close>

record disk =
  open_error :: "string option"
  write_error :: "nat \<Rightarrow> string option"
  close_error :: "string option"
  flushed :: nat

text \<open>\<open>response.content\<close>: the whole body, or the exception of the read.\<close>

definition content :: "response \<Rightarrow> string + string" where
  "content r = (case stream_error r of None \<Rightarrow> Inr (concat (chunks r)) | Some e \<Rightarrow> Inl e)"

text \<open>
  How the body of a \<open>with open(...)\<close> statement ends: normally, by an exception of
  \<open>f.write\<close>, or by an exception of the read of the next chunk.
\<close>

datatype loop_end = Completed | Write_raised string | Read_raised string

text \<open>
  The \<open>for data in response.iter_content(...)\<close> loop, from the chunks still to come, the
  byte count \<open>dl\<close>, the number \<open>k\<close> of writes done and the data handed to \<open>f.write\<close> so far.
  It returns how the loop ended, the progress signals emitted, and the data handed to
  \<open>f.write\<close>, that of a write that raised included.
\<close>

fun stream ::
  "worker \<Rightarrow> real \<Rightarrow> (nat \<Rightarrow> string option) \<Rightarrow> string option \<Rightarrow> string list \<Rightarrow>
   nat \<Rightarrow> nat \<Rightarrow> string \<Rightarrow> loop_end \<times> signal list \<times> string" where
  "stream w total_mb werr serr [] dl k written =
     ((case serr of None \<Rightarrow> Completed | Some e \<Rightarrow> Read_raised e), [], written)"
| "stream w total_mb werr serr (data # rest) dl k written =
     (case werr k of
        Some e \<Rightarrow> (Write_raised e, [], written @ data)
      | None \<Rightarrow>
          (case stream w total_mb werr serr rest (dl + length data) (Suc k) (written @ data) of
             (ending, sigs, written') \<Rightarrow>
               (ending, Progress (real (dl + length data) / (1024 * 1024)) total_mb
                     (file_name w) (bar_index w) # sigs, written')))"

text \<open>
  The exit of the \<open>with\<close> statement: the file is closed however the body ended. An
  exception of the close replaces that of the body. The result is the exception that
  leaves the statement, if any, and the content of the file on disk.
\<close>

definition close_file :: "disk \<Rightarrow> loop_end \<Rightarrow> string \<Rightarrow> string option \<times> string" where
  "close_file d ending written =
     (case close_error d of
        Some e \<Rightarrow> (Some e, take (flushed d) written)
      | None \<Rightarrow>
          (case ending of
             Completed \<Rightarrow> (None, written)
           | Read_raised e \<Rightarrow> (Some e, written)
           | Write_raised e \<Rightarrow> (Some e, take (flushed d) written)))"

text \<open>
  \<open>total_length / (1024 * 1024)\<close> divides two \<open>int\<close>s into a float, and raises
  \<open>OverflowError\<close> when the quotient rounds to \<open>2 ^ 1024\<close> or beyond.
\<close>

definition truediv_overflows :: "int \<Rightarrow> bool" where
  "truediv_overflows n = (2 ^ 1044 - 2 ^ 990 \<le> \<bar>n\<bar>)"

text \<open>
  The \<open>try\<close> block of \<open>run\<close>: the exception it raises, if any, the signals emitted before,
  and the destination file afterwards (\<open>None\<close>: no such file), from the file \<open>f0\<close> there
  was before.
\<close>

definition download ::
  "worker \<Rightarrow> string + response \<Rightarrow> disk \<Rightarrow> string option \<Rightarrow>
   string option \<times> signal list \<times> string option" where
  "download w got d f0 =
     (case got of
        Inl e \<Rightarrow> (Some e, [], f0)
      | Inr r \<Rightarrow>
          (case content_length r of
             None \<Rightarrow>
               (case content r of
                  Inl e \<Rightarrow> (Some e, [], f0)
                | Inr body \<Rightarrow>
                    (case open_error d of
                       Some e \<Rightarrow> (Some e, [], f0)
                     | None \<Rightarrow>
                         (case close_file d
                                 (case write_error d 0 of
                                    None \<Rightarrow> Completed
                                  | Some e \<Rightarrow> Write_raised e)
                                 body of
                            (Some e, file) \<Rightarrow> (Some e, [], Some file)
                          | (None, file) \<Rightarrow>
                              (None,
                               [Progress (real (length body) / (1024 * 1024))
                                  (real (length body) / (1024 * 1024))
                                  (file_name w) (bar_index w),
                                Result (''Finished downloading '' @ file_name w)],
                               Some file))))
           | Some (Inl e) \<Rightarrow> (Some e, [], f0)
           | Some (Inr total_length) \<Rightarrow>
               if truediv_overflows total_length
               then (Some ''integer division result too large for a float'', [], f0)
               else
                 (case open_error d of
                    Some e \<Rightarrow> (Some e, [], f0)
                  | None \<Rightarrow>
                      (case stream w (real_of_int total_length / (1024 * 1024)) (write_error d)
                              (stream_error r) (chunks r) 0 0 [] of
                         (ending, sigs, written) \<Rightarrow>
                           (case close_file d ending written of
                              (Some e, file) \<Rightarrow> (Some e, sigs, Some file)
                            | (None, file) \<Rightarrow>
                                (None,
                                 sigs @ [Result (''Finished downloading '' @ file_name w)],
                                 Some file))))))"

text \<open>
  \<open>run\<close>: the \<open>try\<close> block and its \<open>except Exception as e\<close> handler. (What is not an
  \<open>Exception\<close>, such as \<open>KeyboardInterrupt\<close>, is no failure of the transfer and is not
  modelled.)
\<close>

definition run ::
  "worker \<Rightarrow> string + response \<Rightarrow> disk \<Rightarrow> string option \<Rightarrow> signal list \<times> string option" where
  "run w got d f0 =
     (case download w got d f0 of
        (None, sigs, f) \<Rightarrow> (sigs, f)
      | (Some e, sigs, f) \<Rightarrow>
          (sigs @ [Result (''Error downloading '' @ file_name w @ '': '' @ e)], f))"

text \<open>
  \<open>update_progress\<close>: the value given to \<open>progress_bar.setValue\<close>, or the exception of the
  division. The quotient is taken over the reals: away from a zero total the float
  computed by the code can differ from it by rounding. The text given to \<open>setFormat\<close>
  (floats printed with two decimals) is not modelled.
\<close>

definition update_progress :: "nat \<Rightarrow> real \<Rightarrow> real \<Rightarrow> string \<Rightarrow> error + int" where
  "update_progress i downloaded_mb total_mb name =
     (if total_mb = 0 then Inl ZeroDivisionError
      else Inr \<lfloor>downloaded_mb / total_mb * 100\<rfloor>)"

text \<open>
  \<open>progress_of w x\<close>: \<open>x\<close> is a progress signal of the worker \<open>w\<close>. The two texts of a result
  signal, written out for the statements below.
\<close>

definition progress_of :: "worker \<Rightarrow> signal \<Rightarrow> bool" where
  "progress_of w x =
     (case x of Progress a b n i \<Rightarrow> n = file_name w \<and> i = bar_index w | Result m \<Rightarrow> False)"

abbreviation failure_text :: "worker \<Rightarrow> string \<Rightarrow> string" where
  "failure_text w e \<equiv> ''Error downloading '' @ file_name w @ '': '' @ e"

abbreviation success_text :: "worker \<Rightarrow> string" where
  "success_text w \<equiv> ''Finished downloading '' @ file_name w"

section \<open>\<open>fetch_data\<close>\<close>

text \<open>
  The functions of Python that \<open>fetch_data\<close> calls on strings and floats:
  \<open>str.capitalize\<close>, \<open>str.upper\<close> and the text an f-string prints for a float. They are not
  code of this program, and \<open>fetch_data\<close> is modelled for any three such functions, so
  what is proved of it holds for Python's own, on every string.
\<close>

record python =
  capitalize :: "string \<Rightarrow> string"
  upper :: "string \<Rightarrow> string"
  float_repr :: "real \<Rightarrow> string"

text \<open>
  On strings of ASCII characters \<open>str.upper\<close> turns the letters \<open>a\<close> to \<open>z\<close> into \<open>A\<close> to \<open>Z\<close>,
  and \<open>str.capitalize\<close> does so with the first character and turns the letters \<open>A\<close> to \<open>Z\<close>
  among the others into \<open>a\<close> to \<open>z\<close>. \<open>ascii_python\<close> is used in the closed instances only,
  on such strings.
\<close>

definition char_upper :: "char \<Rightarrow> char" where
  "char_upper c =
     (if 97 \<le> (of_char c :: nat) \<and> (of_char c :: nat) \<le> 122
      then char_of ((of_char c :: nat) - 32) else c)"

definition char_lower :: "char \<Rightarrow> char" where
  "char_lower c =
     (if 65 \<le> (of_char c :: nat) \<and> (of_char c :: nat) \<le> 90
      then char_of ((of_char c :: nat) + 32) else c)"

definition ascii_upper :: "string \<Rightarrow> string" where
  "ascii_upper s = map char_upper s"

definition ascii_capitalize :: "string \<Rightarrow> string" where
  "ascii_capitalize s = (case s of [] \<Rightarrow> [] | c # cs \<Rightarrow> char_upper c # map char_lower cs)"

definition ascii_python :: "(real \<Rightarrow> string) \<Rightarrow> python" where
  "ascii_python fr = \<lparr>capitalize = ascii_capitalize, upper = ascii_upper, float_repr = fr\<rparr>"

text \<open>
  The text an f-string prints for a number: decimal digits for an \<open>int\<close>, \<open>float_repr\<close> for
  a float.
\<close>

fun digits :: "nat \<Rightarrow> string" where
  "digits n =
     (if n < 10 then [char_of (48 + n)] else digits (n div 10) @ [char_of (48 + n mod 10)])"

declare digits.simps [simp del]

definition str_number :: "(real \<Rightarrow> string) \<Rightarrow> json_number \<Rightarrow> string" where
  "str_number fr x =
     (case x of
        JInt i \<Rightarrow> (if i < 0 then CHR ''-'' # digits (nat (- i)) else digits (nat i))
      | JFloat r \<Rightarrow> fr r)"

text \<open>
  An item of the catalog as \<open>response.json()\<close> returns it: each key may be absent; the
  textual fields are JSON strings, \<open>size_gb\<close> a JSON number. \<open>dict_get\<close> is \<open>item.get(key,
  default)\<close>.
\<close>

record raw_item =
  raw_title :: "string option"
  raw_duration :: "string option"
  raw_filetype :: "string option"
  raw_size_gb :: "json_number option"
  raw_url :: "string option"

definition dict_get :: "'a option \<Rightarrow> 'a \<Rightarrow> 'a" where
  "dict_get v d = (case v of None \<Rightarrow> d | Some x \<Rightarrow> x)"

definition process_item :: "python \<Rightarrow> string \<Rightarrow> raw_item \<Rightarrow> item" where
  "process_item py category_name it =
     \<lparr>category = category_name,
      title = dict_get (raw_title it) [],
      duration = dict_get (raw_duration it) [],
      filetype = upper py (dict_get (raw_filetype it) []),
      size_field = str_number (float_repr py) (dict_get (raw_size_gb it) (JInt 0)) @ ''GB'',
      size_gb = dict_get (raw_size_gb it) (JInt 0),
      url = dict_get (raw_url it) []\<rparr>"

text \<open>
  The outer loop over the keys of \<open>data\<close>, in their order, filling \<open>processed_data\<close>.
\<close>

fun process_categories ::
  "python \<Rightarrow> (string \<times> raw_item list) list \<Rightarrow> (string \<rightharpoonup> item list) \<Rightarrow>
   (string \<rightharpoonup> item list)" where
  "process_categories py [] processed_data = processed_data"
| "process_categories py ((category_key, items) # rest) processed_data =
     process_categories py rest
       (processed_data(capitalize py category_key \<mapsto>
          map (process_item py (capitalize py category_key)) items))"

text \<open>
  The answer to \<open>requests.get\<close> of the catalog: its status, and what \<open>response.json()\<close>
  returns or raises. \<open>fetch_data\<close> catches nothing, so an exception of \<open>requests.get\<close> or
  of \<open>response.json()\<close> is its own.
\<close>

record catalog_response =
  catalog_status :: int
  catalog_json :: "error + (string \<times> raw_item list) list"

definition fetch_data ::
  "python \<Rightarrow> error + catalog_response \<Rightarrow> error + (string \<rightharpoonup> item list)" where
  "fetch_data py got =
     (case got of
        Inl e \<Rightarrow> Inl e
      | Inr r \<Rightarrow>
          if catalog_status r = 200 then
            (case catalog_json r of
               Inl e \<Rightarrow> Inl e
             | Inr data \<Rightarrow> Inr (process_categories py data Map.empty))
          else Inr Map.empty)"

section \<open>Example data\<close>

text \<open>Two catalog entries, as \<open>fetch_data\<close> builds them, for the closed instances below.\<close>

definition itA :: item where
  "itA = \<lparr>category = ''Movies'', title = ''A'', duration = ''1:00'', filetype = ''MP4'',
          size_field = ''1GB'', size_gb = JInt 1, url = ''a.mp4''\<rparr>"

definition itB :: item where
  "itB = \<lparr>category = ''Movies'', title = ''B'', duration = ''1:00'', filetype = ''MKV'',
          size_field = ''1GB'', size_gb = JInt 1, url = ''b.mkv''\<rparr>"

text \<open>Five queued tasks \<open>A, B, C, D, E\<close>.\<close>

definition tasks5 :: "task list" where
  "tasks5 = [(''uA'', ''pA'', ''A''), (''uB'', ''pB'', ''B''), (''uC'', ''pC'', ''C''),
             (''uD'', ''pD'', ''D''), (''uE'', ''pE'', ''E'')]"

text \<open>
  The worker of \<open>itA\<close> on bar 0; a disk without failures, a full disk on which the
  buffered data cannot be flushed at the close, and a disk whose second write raises
  after 4 bytes have reached it; five answers of the server.
\<close>

definition wA :: worker where
  "wA = \<lparr>worker_url = ''https://cdn.skyy.cc/a.mp4'', file_path = ''cache/Movies/A.mp4'',
         file_name = ''A'', bar_index = 0\<rparr>"

definition disk_ok :: disk where
  "disk_ok = \<lparr>open_error = None, write_error = (\<lambda>k. None), close_error = None,
              flushed = 0\<rparr>"

definition disk_full :: disk where
  "disk_full = \<lparr>open_error = None, write_error = (\<lambda>k. None),
                close_error = Some ''[Errno 28] No space left on device'', flushed = 0\<rparr>"

definition disk_bad_write :: disk where
  "disk_bad_write =
     \<lparr>open_error = None,
      write_error = (\<lambda>k. if k = 1 then Some ''[Errno 5] Input/output error'' else None),
      close_error = None, flushed = 4\<rparr>"

definition resp_reset :: response where
  "resp_reset = \<lparr>status_code = 200, content_length = Some (Inr 10),
                 chunks = [''abcd'', ''efgh''], stream_error = Some ''Connection reset''\<rparr>"

definition resp_8 :: response where
  "resp_8 = \<lparr>status_code = 200, content_length = Some (Inr 8),
             chunks = [''abcd'', ''efgh''], stream_error = None\<rparr>"

definition resp_404 :: response where
  "resp_404 = \<lparr>status_code = 404, content_length = None,
               chunks = [''Not Found''], stream_error = None\<rparr>"

definition resp_empty :: response where
  "resp_empty = \<lparr>status_code = 200, content_length = None, chunks = [], stream_error = None\<rparr>"

text \<open>An operating system on which the cache folders can be removed and created.\<close>

definition os_ok :: os_env where
  "os_ok = \<lparr>rmtree_fails = False, mkdir_fails = False\<rparr>"

text \<open>A catalog with one category of two entries, the second with no key at all.\<close>

definition catalog_ok :: catalog_response where
  "catalog_ok =
     \<lparr>catalog_status = 200,
      catalog_json = Inr [(''mOVIES'',
        [\<lparr>raw_title = Some ''A'', raw_duration = None, raw_filetype = Some ''mp4'',
          raw_size_gb = Some (JInt 12), raw_url = Some ''a.mp4''\<rparr>,
         \<lparr>raw_title = None, raw_duration = None, raw_filetype = None,
          raw_size_gb = None, raw_url = None\<rparr>])]\<rparr>"

section \<open>Properties of the scheduler\<close>

lemmas sched_defs = start_downloads_def start_next_download_def on_download_complete_def
  worker_done_def go_to_stage6_def busy_def init_app_def task_of_def cache_folder_def Let_def

lemma length_mk_workers: "length (mk_workers k ts) = length ts"
  by (induction k ts rule: mk_workers.induct) auto

lemma bars_mk_workers: "map bar_index (mk_workers k ts) = [k ..< k + length ts]"
  by (induction k ts rule: mk_workers.induct) (simp_all add: upt_conv_Cons del: upt_Suc)

lemma start_loop_run:
  "n \<le> length (download_queue s) \<Longrightarrow> k \<le> progress_bars s \<Longrightarrow>
   start_loop s [k ..< k + n] =
     Inr (s\<lparr>download_queue := drop n (download_queue s),
            active_downloads := active_downloads s @ mk_workers k (take n (download_queue s)),
            progress_bars := progress_bars s + n,
            threadpool := threadpool s @ mk_workers k (take n (download_queue s))\<rparr>)"
proof (induction n arbitrary: s k)
  case 0
  then show ?case by simp
next
  case (Suc n)
  then obtain u p nm rest where q: "download_queue s = (u, p, nm) # rest"
    by (cases "download_queue s") auto
  have up: "[k ..< k + Suc n] = k # [Suc k ..< Suc k + n]"
    by (simp add: upt_conv_Cons)
  let ?s' = "s\<lparr>progress_bars := Suc (progress_bars s), download_queue := rest,
                active_downloads := active_downloads s @
                  [\<lparr>worker_url = u, file_path = p, file_name = nm, bar_index = k\<rparr>],
                threadpool := threadpool s @
                  [\<lparr>worker_url = u, file_path = p, file_name = nm, bar_index = k\<rparr>]\<rparr>"
  have step: "start_next_download (s\<lparr>progress_bars := Suc (progress_bars s)\<rparr>) k = Inr ?s'"
    using Suc.prems q by (simp add: start_next_download_def)
  have "start_loop ?s' [Suc k ..< Suc k + n] = Inr (?s'\<lparr>download_queue := drop n (download_queue ?s'),
            active_downloads := active_downloads ?s' @ mk_workers (Suc k) (take n (download_queue ?s')),
            progress_bars := progress_bars ?s' + n,
            threadpool := threadpool ?s' @ mk_workers (Suc k) (take n (download_queue ?s'))\<rparr>)"
    using Suc.prems q by (intro Suc.IH) auto
  then show ?case
    unfolding up using step q by simp
qed



lemma start_downloads_eq:
  "start_downloads s urls =
     Inr (s\<lparr>download_queue := drop (nat (min (concurrent_downloads s) (int (length urls)))) urls,
            active_downloads := mk_workers 0 (take (nat (min (concurrent_downloads s) (int (length urls)))) urls),
            completed_downloads := 0,
            progress_bars := progress_bars s + nat (min (concurrent_downloads s) (int (length urls))),
            threadpool := threadpool s @
               mk_workers 0 (take (nat (min (concurrent_downloads s) (int (length urls)))) urls)\<rparr>)"
proof -
  let ?m = "nat (min (concurrent_downloads s) (int (length urls)))"
  let ?s = "s\<lparr>download_queue := urls, active_downloads := [], completed_downloads := 0\<rparr>"
  have "?m \<le> length (download_queue ?s)" by simp
  moreover have "0 \<le> progress_bars ?s" by simp
  ultimately have "start_loop ?s [0 ..< 0 + ?m] =
     Inr (?s\<lparr>download_queue := drop ?m (download_queue ?s),
            active_downloads := active_downloads ?s @ mk_workers 0 (take ?m (download_queue ?s)),
            progress_bars := progress_bars ?s + ?m,
            threadpool := threadpool ?s @ mk_workers 0 (take ?m (download_queue ?s))\<rparr>)"
    by (rule start_loop_run)
  then show ?thesis by (simp add: start_downloads_def)
qed

lemma odc_empty:
  "download_queue s = [] \<Longrightarrow>
   on_download_complete s i m =
     Inr (if completed_downloads s + 1 = int (length (selected_content_items s))
          then go_to_stage6 (s\<lparr>completed_downloads := completed_downloads s + 1\<rparr>)
          else s\<lparr>completed_downloads := completed_downloads s + 1\<rparr>)"
  by (simp add: on_download_complete_def start_next_download_def Let_def)

lemma snd_fields:
  "start_next_download s i = Inr s' \<Longrightarrow>
     completed_downloads s' = completed_downloads s \<and>
     selected_content_items s' = selected_content_items s \<and>
     stage6_calls s' = stage6_calls s \<and>
     progress_bars s' = progress_bars s \<and>
     concurrent_downloads s' = concurrent_downloads s"
  by (auto simp: start_next_download_def split: list.splits if_splits)

lemma odc_count:
  "on_download_complete s i m = Inr s' \<Longrightarrow>
     completed_downloads s' = completed_downloads s + 1 \<and>
     selected_content_items s' = selected_content_items s \<and>
     stage6_calls s' = stage6_calls s +
       (if completed_downloads s + 1 = int (length (selected_content_items s)) then 1 else 0)"
  by (auto simp: on_download_complete_def Let_def go_to_stage6_def
      split: sum.splits if_splits dest!: snd_fields)

lemma worker_done_count:
  "worker_done s i m = Inr s' \<Longrightarrow>
     completed_downloads s' = completed_downloads s + 1 \<and>
     selected_content_items s' = selected_content_items s \<and>
     stage6_calls s' = stage6_calls s +
       (if completed_downloads s + 1 = int (length (selected_content_items s)) then 1 else 0)"
  unfolding worker_done_def by (drule odc_count) simp

lemma run_events_count:
  "run_events s evs = Inr s' \<Longrightarrow>
     completed_downloads s' = completed_downloads s + int (length evs) \<and>
     selected_content_items s' = selected_content_items s \<and>
     stage6_calls s' = stage6_calls s +
       (if completed_downloads s < int (length (selected_content_items s)) \<and>
           int (length (selected_content_items s)) \<le> completed_downloads s + int (length evs)
        then 1 else 0)"
proof (induction evs arbitrary: s)
  case Nil
  then show ?case by simp
next
  case (Cons ev evs)
  obtain i m where ev: "ev = (i, m)" by (cases ev)
  from Cons.prems ev obtain s1 where
    s1: "worker_done s i m = Inr s1" and rest: "run_events s1 evs = Inr s'"
    by (auto split: sum.splits)
  note a = worker_done_count [OF s1]
  note b = Cons.IH [OF rest]
  show ?case using a b by (auto split: if_splits)
qed



lemma length_remove_bar:
  "i \<in> set (map bar_index ws) \<Longrightarrow> Suc (length (remove_bar i ws)) = length ws"
  by (induction ws) auto

lemma set_remove_bar: "set (remove_bar i ws) \<subseteq> set ws"
  by (induction ws) auto

lemma distinct_remove_bar:
  "distinct (map bar_index ws) \<Longrightarrow>
     distinct (map bar_index (remove_bar i ws)) \<and> i \<notin> set (map bar_index (remove_bar i ws))"
proof (induction ws)
  case Nil
  then show ?case by simp
next
  case (Cons w ws)
  have sub: "set (remove_bar i ws) \<subseteq> set ws" by (rule set_remove_bar)
  show ?case
  proof (cases "bar_index w = i")
    case True
    with Cons.prems show ?thesis by auto
  next
    case False
    with Cons sub show ?thesis by auto
  qed
qed

lemma worker_done_empty:
  "download_queue s = [] \<Longrightarrow>
   \<exists>s'. worker_done s i m = Inr s' \<and> threadpool s' = remove_bar i (threadpool s) \<and>
        download_queue s' = [] \<and> active_downloads s' = active_downloads s \<and>
        progress_bars s' = progress_bars s"
  by (simp add: worker_done_def on_download_complete_def start_next_download_def Let_def
      go_to_stage6_def)

lemma worker_done_cons:
  "download_queue s = (u, p, n) # rest \<Longrightarrow> i < progress_bars s \<Longrightarrow>
   \<exists>s'. worker_done s i m = Inr s' \<and>
        threadpool s' = remove_bar i (threadpool s) @
          [\<lparr>worker_url = u, file_path = p, file_name = n, bar_index = i\<rparr>] \<and>
        download_queue s' = rest \<and>
        active_downloads s' = active_downloads s @
          [\<lparr>worker_url = u, file_path = p, file_name = n, bar_index = i\<rparr>] \<and>
        progress_bars s' = progress_bars s"
  by (simp add: worker_done_def on_download_complete_def start_next_download_def Let_def
      go_to_stage6_def)

lemma worker_done_step:
  assumes d: "distinct (map bar_index (threadpool s))"
    and b: "\<forall>w \<in> set (threadpool s). bar_index w < progress_bars s"
    and i: "busy s i"
  shows "\<exists>s'. worker_done s i m = Inr s' \<and>
           length (threadpool s') \<le> length (threadpool s) \<and>
           distinct (map bar_index (threadpool s')) \<and>
           (\<forall>w \<in> set (threadpool s'). bar_index w < progress_bars s') \<and>
           length (active_downloads s') \<le> Suc (length (active_downloads s))"
proof -
  from i have mem: "i \<in> set (map bar_index (threadpool s))" by (simp add: busy_def)
  with b have lt: "i < progress_bars s" by auto
  note len = length_remove_bar [OF mem]
  note dis = distinct_remove_bar [OF d, of i]
  note sub = set_remove_bar [of i "threadpool s"]
  show ?thesis
  proof (cases "download_queue s")
    case Nil
    from worker_done_empty [OF Nil, of i m] obtain s' where
      "worker_done s i m = Inr s'" "threadpool s' = remove_bar i (threadpool s)"
      "active_downloads s' = active_downloads s" "progress_bars s' = progress_bars s"
      by blast
    with len dis sub b show ?thesis by auto
  next
    case (Cons t rest)
    obtain u p n where t: "t = (u, p, n)" by (cases t)
    from worker_done_cons [OF Cons [unfolded t] lt, of m] obtain s' where
      "worker_done s i m = Inr s'"
      "threadpool s' = remove_bar i (threadpool s) @
          [\<lparr>worker_url = u, file_path = p, file_name = n, bar_index = i\<rparr>]"
      "active_downloads s' = active_downloads s @
          [\<lparr>worker_url = u, file_path = p, file_name = n, bar_index = i\<rparr>]"
      "progress_bars s' = progress_bars s"
      by blast
    with len dis sub b lt show ?thesis by auto
  qed
qed

lemma feasible_run:
  assumes "distinct (map bar_index (threadpool s))"
    and "\<forall>w \<in> set (threadpool s). bar_index w < progress_bars s"
    and "feasible s evs"
  shows "\<exists>s'. run_events s evs = Inr s' \<and>
           length (threadpool s') \<le> length (threadpool s) \<and>
           distinct (map bar_index (threadpool s')) \<and>
           length (active_downloads s') \<le> length (active_downloads s) + length evs"
  using assms
proof (induction evs arbitrary: s)
  case Nil
  then show ?case by simp
next
  case (Cons ev evs)
  obtain i m where ev: "ev = (i, m)" by (cases ev)
  from Cons.prems(3) ev have bi: "busy s i" by simp
  from worker_done_step [OF Cons.prems(1,2) bi, of m] obtain s1 where
    s1: "worker_done s i m = Inr s1"
    and l1: "length (threadpool s1) \<le> length (threadpool s)"
    and d1: "distinct (map bar_index (threadpool s1))"
    and b1: "\<forall>w \<in> set (threadpool s1). bar_index w < progress_bars s1"
    and a1: "length (active_downloads s1) \<le> Suc (length (active_downloads s))"
    by blast
  from Cons.prems(3) ev s1 have f1: "feasible s1 evs" by simp
  from Cons.IH [OF d1 b1 f1] obtain s' where
    "run_events s1 evs = Inr s'"
    "length (threadpool s') \<le> length (threadpool s1)"
    "distinct (map bar_index (threadpool s'))"
    "length (active_downloads s') \<le> length (active_downloads s1) + length evs"
    by blast
  with s1 l1 a1 ev show ?case by auto
qed

lemma fields_mk_workers:
  "map (\<lambda>w. (worker_url w, file_path w, file_name w)) (mk_workers k ts) = ts"
  by (induction k ts rule: mk_workers.induct) auto

text \<open>
  A run whose events all come from pooled workers, started on an idle pool with a
  concurrency of at least 1, delivers at most as many terminal events as there are
  selected items; and while fewer have been delivered, a worker is still in the pool.
\<close>

lemma worker_done_balance:
  assumes b: "busy s i" and lt: "i < progress_bars s"
    and j: "int (length (threadpool s)) + int (length (download_queue s)) +
              completed_downloads s = n"
    and d: "worker_done s i m = Inr s'"
  shows "int (length (threadpool s')) + int (length (download_queue s')) +
           completed_downloads s' = n \<and>
         (download_queue s \<noteq> [] \<longrightarrow> threadpool s' \<noteq> [])"
proof -
  from b have mem: "i \<in> set (map bar_index (threadpool s))" by (simp add: busy_def)
  note len = length_remove_bar [OF mem]
  from worker_done_count [OF d] have c: "completed_downloads s' = completed_downloads s + 1"
    by simp
  show ?thesis
  proof (cases "download_queue s")
    case Nil
    from worker_done_empty [OF Nil, of i m] d have
      "threadpool s' = remove_bar i (threadpool s)" "download_queue s' = []" by auto
    with len c j Nil show ?thesis by auto
  next
    case (Cons t rest)
    obtain u p nm where t: "t = (u, p, nm)" by (cases t)
    from worker_done_cons [OF Cons [unfolded t] lt, of m] d have
      "threadpool s' = remove_bar i (threadpool s) @
          [\<lparr>worker_url = u, file_path = p, file_name = nm, bar_index = i\<rparr>]"
      "download_queue s' = rest" by auto
    with len c j Cons show ?thesis by auto
  qed
qed

lemma feasible_balance:
  assumes "distinct (map bar_index (threadpool s))"
    and "\<forall>w \<in> set (threadpool s). bar_index w < progress_bars s"
    and "int (length (threadpool s)) + int (length (download_queue s)) +
           completed_downloads s = n"
    and "download_queue s \<noteq> [] \<longrightarrow> threadpool s \<noteq> []"
    and "feasible s evs" and "run_events s evs = Inr s'"
  shows "int (length (threadpool s')) + int (length (download_queue s')) +
           completed_downloads s' = n \<and>
         (download_queue s' \<noteq> [] \<longrightarrow> threadpool s' \<noteq> [])"
  using assms
proof (induction evs arbitrary: s)
  case Nil
  then show ?case by simp
next
  case (Cons ev evs)
  obtain i m where ev: "ev = (i, m)" by (cases ev)
  from Cons.prems(5) ev have bi: "busy s i" by simp
  then have lt: "i < progress_bars s" using Cons.prems(2) by (auto simp: busy_def)
  from worker_done_step [OF Cons.prems(1,2) bi, of m] obtain s1 where
    s1: "worker_done s i m = Inr s1"
    and d1: "distinct (map bar_index (threadpool s1))"
    and b1: "\<forall>w \<in> set (threadpool s1). bar_index w < progress_bars s1"
    by blast
  from worker_done_balance [OF bi lt Cons.prems(3) s1] have
    j1: "int (length (threadpool s1)) + int (length (download_queue s1)) +
           completed_downloads s1 = n"
    and q: "download_queue s \<noteq> [] \<longrightarrow> threadpool s1 \<noteq> []" by simp_all
  have q1: "download_queue s1 \<noteq> [] \<longrightarrow> threadpool s1 \<noteq> []"
  proof (cases "download_queue s")
    case Nil
    from worker_done_empty [OF Nil, of i m] s1 show ?thesis by auto
  next
    case (Cons a list)
    with q show ?thesis by simp
  qed
  from Cons.prems(5,6) ev s1 have f1: "feasible s1 evs" and r1: "run_events s1 evs = Inr s'"
    by simp_all
  from Cons.IH [OF d1 b1 j1 q1 f1 r1] show ?case .
qed

lemma feasible_run_length:
  assumes "threadpool s0 = []" and "1 \<le> concurrent_downloads s0"
    and "start_downloads s0 (map task_of (selected_content_items s0)) = Inr s1"
    and "feasible s1 evs" and "run_events s1 evs = Inr s"
  shows "length evs \<le> length (selected_content_items s0) \<and>
         (length evs < length (selected_content_items s0) \<longrightarrow> threadpool s \<noteq> [])"
proof -
  let ?urls = "map task_of (selected_content_items s0)"
  let ?m = "nat (min (concurrent_downloads s0) (int (length ?urls)))"
  from assms(3) have tp: "threadpool s1 = mk_workers 0 (take ?m ?urls)"
    and q: "download_queue s1 = drop ?m ?urls"
    and c: "completed_downloads s1 = 0"
    and pb: "progress_bars s1 = progress_bars s0 + ?m"
    by (auto simp: start_downloads_eq assms(1))
  have len: "length (threadpool s1) = ?m" by (simp add: tp length_mk_workers)
  have bars: "map bar_index (threadpool s1) = [0 ..< ?m]"
    using bars_mk_workers [of 0 "take ?m ?urls"] by (simp add: tp)
  have d: "distinct (map bar_index (threadpool s1))" by (simp add: bars)
  have b: "\<forall>w \<in> set (threadpool s1). bar_index w < progress_bars s1"
  proof
    fix w assume "w \<in> set (threadpool s1)"
    then have "bar_index w \<in> set (map bar_index (threadpool s1))" by simp
    then show "bar_index w < progress_bars s1" by (simp add: bars pb)
  qed
  have j: "int (length (threadpool s1)) + int (length (download_queue s1)) +
             completed_downloads s1 = int (length (selected_content_items s0))"
    by (simp add: len q c)
  have ne: "download_queue s1 \<noteq> [] \<longrightarrow> threadpool s1 \<noteq> []"
  proof
    assume "download_queue s1 \<noteq> []"
    then have "selected_content_items s0 \<noteq> []" by (auto simp: q)
    then have "1 \<le> int (length (selected_content_items s0))"
      by (cases "selected_content_items s0") simp_all
    with assms(2) have mm: "1 \<le> min (concurrent_downloads s0) (int (length ?urls))" by simp
    show "threadpool s1 \<noteq> []"
    proof
      assume "threadpool s1 = []"
      then have "length (threadpool s1) = 0" by simp
      then have "?m = 0" unfolding len .
      with mm show False by linarith
    qed
  qed
  from feasible_balance [OF d b j ne assms(4,5)] have
    j': "int (length (threadpool s)) + int (length (download_queue s)) +
           completed_downloads s = int (length (selected_content_items s0))"
    and ne': "download_queue s \<noteq> [] \<longrightarrow> threadpool s \<noteq> []" by simp_all
  from run_events_count [OF assms(5)] c have cs: "completed_downloads s = int (length evs)"
    by simp
  from j' cs have le: "length evs \<le> length (selected_content_items s0)" by linarith
  have "threadpool s \<noteq> []" if "length evs < length (selected_content_items s0)"
  proof
    assume e: "threadpool s = []"
    with ne' have "download_queue s = []" by blast
    with e j' cs that show False by simp
  qed
  with le show ?thesis by blast
qed

section \<open>Claims about the scheduler\<close>

subsection \<open>C1: the batch-complete signal\<close>

text \<open>
  Counterexample to C1 as stated. Two items \<open>A\<close> and \<open>B\<close> are selected and both are started.
  The terminal event of \<open>A\<close> is delivered twice. \<open>on_download_complete\<close> counts both
  deliveries: \<open>completed_downloads\<close> is 2, \<open>go_to_stage6\<close> has been called, and the worker
  of \<open>B\<close> is still in the pool. The handler keeps no record of which task an event
  belongs to, so a second terminal event of a task is counted again.
\<close>

theorem double_count_counterexample:
  "(case start_downloads ((init_app [])\<lparr>selected_content_items := [itA, itB]\<rparr>)
           (map task_of [itA, itB]) of
      Inl e \<Rightarrow> False
    | Inr s1 \<Rightarrow>
        (case run_events s1 [(0, ''Finished downloading A''), (0, ''Finished downloading A'')] of
           Inl e \<Rightarrow> False
         | Inr s \<Rightarrow> completed_downloads s = 2 \<and> stage6_calls s = 1 \<and> stacked_index s = 5 \<and>
                    map file_name (threadpool s) = [''B'']))"
  by (simp add: sched_defs itA_def itB_def upt_conv_Cons)

text \<open>
  C1, amended. In a run started by \<open>start_downloads\<close> on the tasks of the \<open>N\<close> selected
  items, after any \<open>k\<close> terminal events have been handled (successes and failures alike,
  from any slots, repeated or not) \<open>completed_downloads\<close> is \<open>k\<close>, and \<open>go_to_stage6\<close> has
  been called exactly once if \<open>1 \<le> N \<le> k\<close> and not at all otherwise: the signal fires at
  the \<open>N\<close>-th delivered event, not before, and never again. Events are counted per
  delivery, not per task. (When every event comes from a pooled worker, no more than \<open>N\<close>
  events can be delivered and the \<open>N\<close>-th is still to come while fewer have been:
  \<open>feasible_run_length\<close>.)
\<close>

theorem batch_complete_once:
  assumes "start_downloads s0 (map task_of (selected_content_items s0)) = Inr s1"
    and "run_events s1 evs = Inr s"
  shows "completed_downloads s = int (length evs) \<and>
         stage6_calls s = stage6_calls s0 +
           (if 1 \<le> length (selected_content_items s0) \<and>
               length (selected_content_items s0) \<le> length evs then 1 else 0)"
proof -
  from assms(1) have c0: "completed_downloads s1 = 0"
    and it: "selected_content_items s1 = selected_content_items s0"
    and f0: "stage6_calls s1 = stage6_calls s0"
    by (auto simp: start_downloads_eq)
  from run_events_count [OF assms(2)] c0 it f0 show ?thesis
    by (cases "selected_content_items s0") (auto split: if_splits)
qed

text \<open>An instance: two items, one success and one failure.\<close>

theorem batch_complete_once_witness:
  "\<exists>s1 s. start_downloads ((init_app [])\<lparr>selected_content_items := [itA, itB]\<rparr>)
             (map task_of
                (selected_content_items ((init_app [])\<lparr>selected_content_items := [itA, itB]\<rparr>))) =
             Inr s1 \<and>
          run_events s1 [(1, ''Finished downloading B''), (0, ''Error downloading A: timeout'')] =
             Inr s \<and>
          completed_downloads s = 2 \<and> stage6_calls s = 1"
proof -
  let ?s0 = "(init_app [])\<lparr>selected_content_items := [itA, itB]\<rparr>"
  let ?evs = "[(1, ''Finished downloading B''), (0, ''Error downloading A: timeout'')]"
  obtain s1 where s1: "start_downloads ?s0 (map task_of (selected_content_items ?s0)) = Inr s1"
    by (simp add: start_downloads_eq)
  obtain s where s: "run_events s1 ?evs = Inr s"
    using s1 by (auto simp: sched_defs upt_conv_Cons)
  from batch_complete_once [OF s1 s] have
    "completed_downloads s = 2 \<and> stage6_calls s = 1"
    by (simp add: init_app_def)
  with s1 s show ?thesis by blast
qed

subsection \<open>C2: the number of active transfers\<close>

text \<open>
  C2. Let the pool be idle and the concurrency limit \<open>c\<close> be in \<open>[1, 15]\<close> when
  \<open>start_downloads\<close> is called on \<open>L\<close> tasks. Then exactly \<open>min c L\<close> progress bars (slots)
  and workers are created at the start; and after any sequence of terminal events, each
  coming from a worker that is in the pool, the handler has not raised, the pool holds
  at most \<open>min c L\<close> workers, no two of them on the same slot, and the number of workers
  ever started is at most \<open>min c L\<close> plus the number of terminal events (at most one new
  task per terminal event).
\<close>

theorem pool_bound:
  assumes "threadpool s0 = []"
    and "1 \<le> concurrent_downloads s0" and "concurrent_downloads s0 \<le> 15"
    and "start_downloads s0 urls = Inr s1"
    and "feasible s1 evs"
  shows "int (length (threadpool s1)) = min (concurrent_downloads s0) (int (length urls)) \<and>
         progress_bars s1 = progress_bars s0 + length (threadpool s1) \<and>
         (\<exists>s. run_events s1 evs = Inr s \<and>
              int (length (threadpool s)) \<le> min (concurrent_downloads s0) (int (length urls)) \<and>
              distinct (map bar_index (threadpool s)) \<and>
              length (active_downloads s) \<le> length (threadpool s1) + length evs)"
proof -
  let ?m = "nat (min (concurrent_downloads s0) (int (length urls)))"
  from assms(4) have tp: "threadpool s1 = mk_workers 0 (take ?m urls)"
    and ad: "active_downloads s1 = mk_workers 0 (take ?m urls)"
    and pb: "progress_bars s1 = progress_bars s0 + ?m"
    by (auto simp: start_downloads_eq assms(1))
  have len: "length (threadpool s1) = ?m"
    by (simp add: tp length_mk_workers)
  have bars: "map bar_index (threadpool s1) = [0 ..< ?m]"
    using bars_mk_workers [of 0 "take ?m urls"] by (simp add: tp)
  have d: "distinct (map bar_index (threadpool s1))" by (simp add: bars)
  have b: "\<forall>w \<in> set (threadpool s1). bar_index w < progress_bars s1"
  proof
    fix w assume "w \<in> set (threadpool s1)"
    then have "bar_index w \<in> set (map bar_index (threadpool s1))" by simp
    then show "bar_index w < progress_bars s1" by (simp add: bars pb)
  qed
  from feasible_run [OF d b assms(5)] obtain s where
    r: "run_events s1 evs = Inr s" and l: "length (threadpool s) \<le> length (threadpool s1)"
    and ds: "distinct (map bar_index (threadpool s))"
    and a: "length (active_downloads s) \<le> length (active_downloads s1) + length evs"
    by blast
  have m: "int ?m = min (concurrent_downloads s0) (int (length urls))"
    using assms(2) by simp
  have c1: "int (length (threadpool s1)) = min (concurrent_downloads s0) (int (length urls))"
    using len m by simp
  have c2: "progress_bars s1 = progress_bars s0 + length (threadpool s1)"
    using pb len by simp
  have c3: "int (length (threadpool s)) \<le> min (concurrent_downloads s0) (int (length urls))"
    using l c1 by linarith
  have c4: "length (active_downloads s) \<le> length (threadpool s1) + length evs"
    using a ad tp by simp
  from r c3 ds c4 have "\<exists>s. run_events s1 evs = Inr s \<and>
              int (length (threadpool s)) \<le> min (concurrent_downloads s0) (int (length urls)) \<and>
              distinct (map bar_index (threadpool s)) \<and>
              length (active_downloads s) \<le> length (threadpool s1) + length evs"
    by blast
  with c1 c2 show ?thesis by blast
qed

text \<open>An instance: the limit 3, five tasks, three terminal events.\<close>

theorem pool_bound_witness:
  "threadpool (init_app []) = [] \<and> 1 \<le> concurrent_downloads (init_app []) \<and>
   concurrent_downloads (init_app []) \<le> 15 \<and>
   (\<exists>s1 s. start_downloads (init_app []) tasks5 = Inr s1 \<and>
      feasible s1 [(1, ''Finished downloading B''), (1, ''Error downloading D: reset''),
                   (0, ''Finished downloading A'')] \<and>
      run_events s1 [(1, ''Finished downloading B''), (1, ''Error downloading D: reset''),
                     (0, ''Finished downloading A'')] = Inr s \<and>
      length (threadpool s1) = 3 \<and> length (threadpool s) \<le> 3)"
proof -
  let ?evs = "[(1, ''Finished downloading B''), (1, ''Error downloading D: reset''),
               (0, ''Finished downloading A'')]"
  have h1: "threadpool (init_app []) = []" by (simp add: init_app_def)
  have h2: "1 \<le> concurrent_downloads (init_app [])" by (simp add: init_app_def)
  have h3: "concurrent_downloads (init_app []) \<le> 15" by (simp add: init_app_def)
  obtain s1 where s1: "start_downloads (init_app []) tasks5 = Inr s1"
    by (simp add: start_downloads_eq)
  have f: "feasible s1 ?evs"
    using s1 by (auto simp: sched_defs tasks5_def upt_conv_Cons)
  from pool_bound [OF h1 h2 h3 s1 f] obtain s where
    "run_events s1 ?evs = Inr s" "length (threadpool s1) = 3" "length (threadpool s) \<le> 3"
    by (auto simp: init_app_def tasks5_def)
  with h1 h2 h3 s1 f show ?thesis by blast
qed

subsection \<open>C4: the freed slot takes the head of the queue\<close>

text \<open>
  C4. When the worker of slot \<open>i\<close> reports its terminal event (in a state where no two
  workers share a slot and the slot's progress bar exists), the handler does not raise;
  if the queue is empty it stays empty, no worker is started and slot \<open>i\<close> is idle
  afterwards; otherwise exactly the head of the queue is removed, and the worker built
  from it is the one worker of slot \<open>i\<close> afterwards.
\<close>

theorem fifo_reassign:
  assumes "i < progress_bars s" and "distinct (map bar_index (threadpool s))"
  shows "\<exists>s'. worker_done s i m = Inr s' \<and>
           (case download_queue s of
              [] \<Rightarrow> download_queue s' = [] \<and> \<not> busy s' i \<and>
                    threadpool s' = remove_bar i (threadpool s) \<and>
                    active_downloads s' = active_downloads s
            | (u, p, n) # rest \<Rightarrow>
                download_queue s' = rest \<and>
                threadpool s' = remove_bar i (threadpool s) @
                  [\<lparr>worker_url = u, file_path = p, file_name = n, bar_index = i\<rparr>] \<and>
                filter (\<lambda>w. bar_index w = i) (threadpool s') =
                  [\<lparr>worker_url = u, file_path = p, file_name = n, bar_index = i\<rparr>] \<and>
                active_downloads s' = active_downloads s @
                  [\<lparr>worker_url = u, file_path = p, file_name = n, bar_index = i\<rparr>])"
proof -
  from distinct_remove_bar [OF assms(2), of i]
  have ni: "i \<notin> set (map bar_index (remove_bar i (threadpool s)))" by simp
  then have fl: "filter (\<lambda>w. bar_index w = i) (remove_bar i (threadpool s)) = []"
    by (auto simp: filter_empty_conv)
  show ?thesis
  proof (cases "download_queue s")
    case Nil
    from worker_done_empty [OF Nil, of i m] ni show ?thesis
      by (auto simp: Nil busy_def)
  next
    case (Cons t rest)
    obtain u p n where t: "t = (u, p, n)" by (cases t)
    from worker_done_cons [OF Cons [unfolded t] assms(1), of m] fl show ?thesis
      by (auto simp: Cons t)
  qed
qed

text \<open>
  The instance of the claim: the limit 3 and the tasks \<open>A, B, C, D, E\<close>. \<open>A\<close>, \<open>B\<close>, \<open>C\<close> are
  started; when the slot of \<open>A\<close> completes first it is given \<open>D\<close>, and \<open>E\<close> stays queued.
\<close>

theorem fifo_reassign_witness:
  "\<exists>s1 s'. start_downloads (init_app []) tasks5 = Inr s1 \<and>
      0 < progress_bars s1 \<and> distinct (map bar_index (threadpool s1)) \<and>
      map file_name (threadpool s1) = [''A'', ''B'', ''C''] \<and>
      worker_done s1 0 ''Finished downloading A'' = Inr s' \<and>
      download_queue s' = [(''uE'', ''pE'', ''E'')] \<and>
      filter (\<lambda>w. bar_index w = 0) (threadpool s') =
        [\<lparr>worker_url = ''uD'', file_path = ''pD'', file_name = ''D'', bar_index = 0\<rparr>]"
proof -
  obtain s1 where s1: "start_downloads (init_app []) tasks5 = Inr s1"
    by (simp add: start_downloads_eq)
  from s1 have h1: "0 < progress_bars s1"
    and h2: "distinct (map bar_index (threadpool s1))"
    and q: "download_queue s1 = [(''uD'', ''pD'', ''D''), (''uE'', ''pE'', ''E'')]"
    and n: "map file_name (threadpool s1) = [''A'', ''B'', ''C'']"
    by (auto simp: sched_defs tasks5_def upt_conv_Cons)
  from fifo_reassign [OF h1 h2, of "''Finished downloading A''"] q obtain s' where
    "worker_done s1 0 ''Finished downloading A'' = Inr s'"
    "download_queue s' = [(''uE'', ''pE'', ''E'')]"
    "filter (\<lambda>w. bar_index w = 0) (threadpool s') =
        [\<lparr>worker_url = ''uD'', file_path = ''pD'', file_name = ''D'', bar_index = 0\<rparr>]"
    by auto
  with s1 h1 h2 n show ?thesis
    by (intro exI [of _ s1] exI [of _ s']) simp
qed

subsection \<open>C7: starting with nothing to do\<close>

text \<open>
  Counterexample to C7 as stated: \<open>start_downloads\<close> on the empty list, and with the
  concurrency 0, returns normally; no error is raised.
\<close>

theorem no_config_error_counterexample:
  "\<not> isl (start_downloads (init_app []) []) \<and>
   \<not> isl (start_downloads ((init_app [])\<lparr>concurrent_downloads := 0\<rparr>) tasks5)"
  by (simp add: start_downloads_def)

text \<open>
  C7, amended. When the concurrency is below 1 or the task list is empty,
  \<open>start_downloads\<close> raises nothing and schedules no work: it sets the queue to the given
  list, \<open>active_downloads\<close> to the empty list and \<open>completed_downloads\<close> to 0, and
  changes nothing else, so no progress bar is created and nothing is handed to the
  thread pool.
\<close>

theorem start_downloads_idle:
  assumes "concurrent_downloads s < 1 \<or> urls = []"
  shows "start_downloads s urls =
           Inr (s\<lparr>download_queue := urls, active_downloads := [], completed_downloads := 0\<rparr>)"
proof -
  from assms have "nat (min (concurrent_downloads s) (int (length urls))) = 0" by auto
  then show ?thesis by (simp add: start_downloads_def)
qed

text \<open>An instance: the concurrency 0 and five tasks.\<close>

theorem start_downloads_idle_witness:
  "(concurrent_downloads ((init_app [])\<lparr>concurrent_downloads := 0\<rparr>) < 1 \<or> tasks5 = []) \<and>
   start_downloads ((init_app [])\<lparr>concurrent_downloads := 0\<rparr>) tasks5 =
     Inr ((init_app [])\<lparr>concurrent_downloads := 0, download_queue := tasks5,
                         active_downloads := [], completed_downloads := 0\<rparr>)"
proof -
  have h: "concurrent_downloads ((init_app [])\<lparr>concurrent_downloads := 0\<rparr>) < 1 \<or> tasks5 = []"
    by simp
  from start_downloads_idle [OF h] h show ?thesis by simp
qed

section \<open>Properties of the worker, of \<open>go_to_stage5\<close> and of \<open>fetch_data\<close>\<close>

lemma progress_of_Progress:
  "progress_of w (Progress a b (file_name w) (bar_index w))"
  by (simp add: progress_of_def)

lemma progress_of_Result: "\<not> progress_of w (Result m)"
  by (simp add: progress_of_def)

lemma stream_signals:
  "stream w t werr serr cs dl k out = (ending, sigs, out') \<Longrightarrow> list_all (progress_of w) sigs"
proof (induction cs arbitrary: dl k out ending sigs out')
  case Nil
  then show ?case by simp
next
  case (Cons c cs)
  show ?case
  proof (cases "werr k")
    case (Some e)
    with Cons.prems show ?thesis by simp
  next
    case None
    obtain e1 sigs1 out1 where
      rec: "stream w t werr serr cs (dl + length c) (Suc k) (out @ c) = (e1, sigs1, out1)"
      by (cases "stream w t werr serr cs (dl + length c) (Suc k) (out @ c)") auto
    from Cons.IH [OF rec] Cons.prems None rec show ?thesis
      by (auto simp: progress_of_Progress)
  qed
qed

lemma stream_all_written:
  assumes "\<forall>i < length cs. werr (k + i) = None"
  shows "\<exists>sigs. stream w t werr serr cs dl k out =
           ((case serr of None \<Rightarrow> Completed | Some e \<Rightarrow> Read_raised e), sigs, out @ concat cs) \<and>
         length sigs = length cs \<and> list_all (progress_of w) sigs"
  using assms
proof (induction cs arbitrary: dl k out)
  case Nil
  then show ?case by simp
next
  case (Cons c cs)
  from Cons.prems have wk: "werr k = None" by force
  have "\<forall>i < length cs. werr (Suc k + i) = None"
  proof (intro allI impI)
    fix i assume "i < length cs"
    then have "Suc i < length (c # cs)" by simp
    with Cons.prems have "werr (k + Suc i) = None" by blast
    then show "werr (Suc k + i) = None" by simp
  qed
  from Cons.IH [OF this, of "dl + length c" "out @ c"] obtain sigs where
    s: "stream w t werr serr cs (dl + length c) (Suc k) (out @ c) =
          ((case serr of None \<Rightarrow> Completed | Some e \<Rightarrow> Read_raised e), sigs,
           (out @ c) @ concat cs)"
    and l: "length sigs = length cs" and p: "list_all (progress_of w) sigs"
    by blast
  show ?case
    by (rule exI [of _ "Progress (real (dl + length c) / (1024 * 1024)) t
          (file_name w) (bar_index w) # sigs"])
      (simp add: wk s l p progress_of_Progress)
qed

lemma stream_write_raised:
  assumes "j < length cs" and "\<forall>i < j. werr (k + i) = None" and "werr (k + j) = Some e"
  shows "\<exists>sigs. stream w t werr serr cs dl k out =
           (Write_raised e, sigs, out @ concat (take (Suc j) cs)) \<and>
         length sigs = j \<and> list_all (progress_of w) sigs"
  using assms
proof (induction cs arbitrary: dl k out j)
  case Nil
  then show ?case by simp
next
  case (Cons c cs)
  show ?case
  proof (cases j)
    case 0
    with Cons.prems have "werr k = Some e" by simp
    with 0 show ?thesis by simp
  next
    case (Suc j')
    with Cons.prems have wk: "werr k = None" by force
    from Suc Cons.prems have j': "j' < length cs" by simp
    have a: "\<forall>i < j'. werr (Suc k + i) = None"
    proof (intro allI impI)
      fix i assume "i < j'"
      then have "Suc i < j" using Suc by simp
      with Cons.prems have "werr (k + Suc i) = None" by blast
      then show "werr (Suc k + i) = None" by simp
    qed
    from Cons.prems Suc have b: "werr (Suc k + j') = Some e" by simp
    from Cons.IH [OF j' a b, of "dl + length c" "out @ c"] obtain sigs where
      s: "stream w t werr serr cs (dl + length c) (Suc k) (out @ c) =
            (Write_raised e, sigs, (out @ c) @ concat (take (Suc j') cs))"
      and l: "length sigs = j'" and p: "list_all (progress_of w) sigs"
      by blast
    show ?thesis
      by (rule exI [of _ "Progress (real (dl + length c) / (1024 * 1024)) t
            (file_name w) (bar_index w) # sigs"])
        (simp add: wk s l p Suc progress_of_Progress)
  qed
qed

lemma download_signals:
  assumes "download w got d f0 = (x, sigs, f)"
  shows "\<exists>ps. list_all (progress_of w) ps \<and>
           sigs = (case x of None \<Rightarrow> ps @ [Result (''Finished downloading '' @ file_name w)]
                   | Some e \<Rightarrow> ps)"
proof (cases x)
  case None
  with assms show ?thesis
    by (auto simp: download_def progress_of_Progress
        split: sum.splits option.splits prod.splits if_splits dest!: stream_signals)
next
  case (Some e)
  with assms show ?thesis
    by (auto simp: download_def progress_of_Progress
        split: sum.splits option.splits prod.splits if_splits dest!: stream_signals)
qed

lemma run_shape:
  "\<exists>ps m. fst (run w got d f0) = ps @ [Result m] \<and> list_all (progress_of w) ps"
proof -
  obtain x sigs f where dl: "download w got d f0 = (x, sigs, f)"
    by (cases "download w got d f0") auto
  from download_signals [OF dl] obtain ps where
    p: "list_all (progress_of w) ps"
    and s: "sigs = (case x of None \<Rightarrow> ps @ [Result (''Finished downloading '' @ file_name w)]
                   | Some e \<Rightarrow> ps)"
    by blast
  show ?thesis
  proof (cases x)
    case None
    with dl s p show ?thesis by (auto simp: run_def)
  next
    case (Some e)
    with dl s p show ?thesis by (auto simp: run_def)
  qed
qed


lemma run_no_header:
  assumes "content_length r = None" and "stream_error r = None" and "open_error d = None"
  shows "case close_error d of
           Some e2 \<Rightarrow>
             run w (Inr r) d f0 =
               ([Result (failure_text w e2)], Some (take (flushed d) (concat (chunks r))))
         | None \<Rightarrow>
             (case write_error d 0 of
                Some e1 \<Rightarrow>
                  run w (Inr r) d f0 =
                    ([Result (failure_text w e1)], Some (take (flushed d) (concat (chunks r))))
              | None \<Rightarrow>
                  (\<exists>a. run w (Inr r) d f0 =
                     ([Progress a a (file_name w) (bar_index w), Result (success_text w)],
                      Some (concat (chunks r)))))"
proof (cases "close_error d")
  case (Some e2)
  with assms show ?thesis
    by (simp add: run_def download_def content_def close_file_def split: option.splits)
next
  case None
  show ?thesis
  proof (cases "write_error d 0")
    case (Some e1)
    with None assms show ?thesis
      by (simp add: run_def download_def content_def close_file_def)
  next
    case wn: None
    have "run w (Inr r) d f0 =
        ([Progress (real (length (concat (chunks r))) / (1024 * 1024))
            (real (length (concat (chunks r))) / (1024 * 1024)) (file_name w) (bar_index w),
          Result (success_text w)],
         Some (concat (chunks r)))"
      using None wn assms by (simp add: run_def download_def content_def close_file_def)
    then have "\<exists>a. run w (Inr r) d f0 =
                     ([Progress a a (file_name w) (bar_index w), Result (success_text w)],
                      Some (concat (chunks r)))"
      by blast
    with None wn show ?thesis by simp
  qed
qed

lemma run_write_raised:
  assumes "content_length r = Some (Inr n)" and "\<not> truediv_overflows n"
    and "open_error d = None" and "k < length (chunks r)"
    and "\<forall>i < k. write_error d i = None" and "write_error d k = Some e"
  shows "\<exists>ps. length ps = k \<and> list_all (progress_of w) ps \<and>
           run w (Inr r) d f0 =
             (ps @ [Result (failure_text w (case close_error d of None \<Rightarrow> e | Some e2 \<Rightarrow> e2))],
              Some (take (flushed d) (concat (take (Suc k) (chunks r)))))"
proof -
  from assms(5) have a: "\<forall>i < k. write_error d (0 + i) = None" by simp
  from assms(6) have b: "write_error d (0 + k) = Some e" by simp
  from stream_write_raised [OF assms(4) a b,
      of w "real_of_int n / (1024 * 1024)" "stream_error r" 0 "[]"]
  obtain sigs where
    s: "stream w (real_of_int n / (1024 * 1024)) (write_error d) (stream_error r) (chunks r)
          0 0 [] = (Write_raised e, sigs, concat (take (Suc k) (chunks r)))"
    and l: "length sigs = k" and p: "list_all (progress_of w) sigs"
    by auto
  have "run w (Inr r) d f0 =
      (sigs @ [Result (failure_text w (case close_error d of None \<Rightarrow> e | Some e2 \<Rightarrow> e2))],
       Some (take (flushed d) (concat (take (Suc k) (chunks r)))))"
    using assms(1,2,3) s
    by (simp add: run_def download_def close_file_def split: option.splits)
  with l p show ?thesis by blast
qed

lemma run_all_written:
  assumes "content_length r = Some (Inr n)" and "\<not> truediv_overflows n"
    and "open_error d = None" and "\<forall>i < length (chunks r). write_error d i = None"
  shows "\<exists>ps. length ps = length (chunks r) \<and> list_all (progress_of w) ps \<and>
           run w (Inr r) d f0 =
             (case close_error d of
                Some e2 \<Rightarrow>
                  (ps @ [Result (failure_text w e2)],
                   Some (take (flushed d) (concat (chunks r))))
              | None \<Rightarrow>
                  (case stream_error r of
                     Some e1 \<Rightarrow> (ps @ [Result (failure_text w e1)], Some (concat (chunks r)))
                   | None \<Rightarrow> (ps @ [Result (success_text w)], Some (concat (chunks r)))))"
proof -
  from assms(4) have a: "\<forall>i < length (chunks r). write_error d (0 + i) = None" by simp
  from stream_all_written [OF a, of w "real_of_int n / (1024 * 1024)" "stream_error r" 0 "[]"]
  obtain sigs where
    s: "stream w (real_of_int n / (1024 * 1024)) (write_error d) (stream_error r) (chunks r)
          0 0 [] =
          ((case stream_error r of None \<Rightarrow> Completed | Some e \<Rightarrow> Read_raised e), sigs,
           concat (chunks r))"
    and l: "length sigs = length (chunks r)" and p: "list_all (progress_of w) sigs"
    by auto
  have "run w (Inr r) d f0 =
      (case close_error d of
                Some e2 \<Rightarrow>
                  (sigs @ [Result (failure_text w e2)],
                   Some (take (flushed d) (concat (chunks r))))
              | None \<Rightarrow>
                  (case stream_error r of
                     Some e1 \<Rightarrow> (sigs @ [Result (failure_text w e1)], Some (concat (chunks r)))
                   | None \<Rightarrow> (sigs @ [Result (success_text w)], Some (concat (chunks r)))))"
    using assms(1,2,3) s
    by (simp add: run_def download_def close_file_def split: option.splits)
  with l p show ?thesis by blast
qed

lemma run_ignores_status:
  "run w (Inr (r\<lparr>status_code := c\<rparr>)) d f0 = run w (Inr r) d f0"
proof -
  have "download w (Inr (r\<lparr>status_code := c\<rparr>)) d f0 = download w (Inr r) d f0"
    by (simp add: download_def content_def split: option.split sum.split)
  then show ?thesis by (simp add: run_def)
qed

lemma update_progress_zero:
  "update_progress i downloaded_mb 0 name = Inl ZeroDivisionError"
  by (simp add: update_progress_def)

lemma rmtree_removes: "d \<notin> set (rmtree d paths)"
  by (simp add: rmtree_def)

lemma process_categories_Some:
  "process_categories py data m k = Some its \<Longrightarrow>
     m k = Some its \<or>
     (\<exists>rk raws. (rk, raws) \<in> set data \<and> k = capitalize py rk \<and>
        its = map (process_item py k) raws)"
proof (induction data arbitrary: m)
  case Nil
  then show ?case by simp
next
  case (Cons a data)
  obtain rk raws where a: "a = (rk, raws)" by (cases a)
  from Cons.prems a have
    "process_categories py data
       (m(capitalize py rk \<mapsto> map (process_item py (capitalize py rk)) raws)) k = Some its"
    by simp
  from Cons.IH [OF this] a show ?case
    by (auto split: if_splits)
qed

lemma process_categories_dom:
  "dom (process_categories py data m) = dom m \<union> capitalize py ` fst ` set data"
proof (induction data arbitrary: m)
  case Nil
  then show ?case by simp
next
  case (Cons a data)
  obtain rk raws where a: "a = (rk, raws)" by (cases a)
  have "dom (process_categories py (a # data) m) =
          dom (m(capitalize py rk \<mapsto> map (process_item py (capitalize py rk)) raws)) \<union>
          capitalize py ` fst ` set data"
    unfolding a process_categories.simps by (rule Cons.IH)
  also have "\<dots> = dom m \<union> capitalize py ` fst ` set (a # data)"
    by (simp add: a)
  finally show ?case .
qed

section \<open>Claims about the worker\<close>

subsection \<open>C3: every failure becomes a terminal event\<close>

text \<open>
  C3. For every task, every answer of the server and every behaviour of the disk, \<open>run\<close>
  returns, and what it has emitted is a sequence of progress signals of its task
  followed by exactly one result signal. Each failure ends the run with the result
  \<open>Error downloading <name>: <error text>\<close> and leaves the destination as it then is:
  \<^item> a failed request, a content length that \<open>int()\<close> rejects or that is too large to be
    divided into a float, a failed read of a body without content length, and a failed
    \<open>open\<close>: no progress signal, the error's text, the destination untouched;
  \<^item> without content length, a failed \<open>write\<close> or \<open>close\<close>: no progress signal, the error's
    text (that of the close when both fail), and on disk the bytes that had reached it,
    a prefix of the body;
  \<^item> with a content length, the \<open>k\<close>-th write failing first: \<open>k\<close> progress signals, the
    text of the write error (or of the close error when the close fails too), and on
    disk a prefix of the first \<open>k + 1\<close> chunks;
  \<^item> with a content length and no failing write: one progress signal per chunk; then the
    text of the close error and a prefix of the chunks on disk when the close fails,
    otherwise the text of the read error and all the chunks received on disk when the
    read of the body fails, otherwise the success message and the whole body on disk.

  In no case is the destination removed.
\<close>

theorem run_reports:
  "(\<exists>ps m. fst (run w got d f0) = ps @ [Result m] \<and> list_all (progress_of w) ps) \<and>
   run w (Inl e) d f0 = ([Result (failure_text w e)], f0) \<and>
   (content_length r = Some (Inl e) \<longrightarrow>
      run w (Inr r) d f0 = ([Result (failure_text w e)], f0)) \<and>
   (content_length r = Some (Inr n) \<and> truediv_overflows n \<longrightarrow>
      run w (Inr r) d f0 =
        ([Result (failure_text w ''integer division result too large for a float'')], f0)) \<and>
   (content_length r = None \<and> stream_error r = Some e \<longrightarrow>
      run w (Inr r) d f0 = ([Result (failure_text w e)], f0)) \<and>
   ((content_length r = None \<and> stream_error r = None \<or>
     content_length r = Some (Inr n) \<and> \<not> truediv_overflows n) \<and>
    open_error d = Some e \<longrightarrow>
      run w (Inr r) d f0 = ([Result (failure_text w e)], f0)) \<and>
   (content_length r = None \<and> stream_error r = None \<and> open_error d = None \<longrightarrow>
      (case close_error d of
         Some e2 \<Rightarrow>
           run w (Inr r) d f0 =
             ([Result (failure_text w e2)], Some (take (flushed d) (concat (chunks r))))
       | None \<Rightarrow>
           (case write_error d 0 of
              Some e1 \<Rightarrow>
                run w (Inr r) d f0 =
                  ([Result (failure_text w e1)], Some (take (flushed d) (concat (chunks r))))
            | None \<Rightarrow>
                (\<exists>a. run w (Inr r) d f0 =
                   ([Progress a a (file_name w) (bar_index w), Result (success_text w)],
                    Some (concat (chunks r))))))) \<and>
   (content_length r = Some (Inr n) \<and> \<not> truediv_overflows n \<and> open_error d = None \<and>
    k < length (chunks r) \<and> (\<forall>i < k. write_error d i = None) \<and> write_error d k = Some e \<longrightarrow>
      (\<exists>ps. length ps = k \<and> list_all (progress_of w) ps \<and>
         run w (Inr r) d f0 =
           (ps @ [Result (failure_text w (case close_error d of None \<Rightarrow> e | Some e2 \<Rightarrow> e2))],
            Some (take (flushed d) (concat (take (Suc k) (chunks r))))))) \<and>
   (content_length r = Some (Inr n) \<and> \<not> truediv_overflows n \<and> open_error d = None \<and>
    (\<forall>i < length (chunks r). write_error d i = None) \<longrightarrow>
      (\<exists>ps. length ps = length (chunks r) \<and> list_all (progress_of w) ps \<and>
         run w (Inr r) d f0 =
           (case close_error d of
              Some e2 \<Rightarrow>
                (ps @ [Result (failure_text w e2)],
                 Some (take (flushed d) (concat (chunks r))))
            | None \<Rightarrow>
                (case stream_error r of
                   Some e1 \<Rightarrow> (ps @ [Result (failure_text w e1)], Some (concat (chunks r)))
                 | None \<Rightarrow> (ps @ [Result (success_text w)], Some (concat (chunks r)))))))"
proof (intro conjI impI)
  show "\<exists>ps m. fst (run w got d f0) = ps @ [Result m] \<and> list_all (progress_of w) ps"
    by (rule run_shape)
next
  show "run w (Inl e) d f0 = ([Result (failure_text w e)], f0)"
    by (simp add: run_def download_def)
next
  assume "content_length r = Some (Inl e)"
  then show "run w (Inr r) d f0 = ([Result (failure_text w e)], f0)"
    by (simp add: run_def download_def)
next
  assume "content_length r = Some (Inr n) \<and> truediv_overflows n"
  then show "run w (Inr r) d f0 =
        ([Result (failure_text w ''integer division result too large for a float'')], f0)"
    by (simp add: run_def download_def)
next
  assume "content_length r = None \<and> stream_error r = Some e"
  then show "run w (Inr r) d f0 = ([Result (failure_text w e)], f0)"
    by (simp add: run_def download_def content_def)
next
  assume "(content_length r = None \<and> stream_error r = None \<or>
     content_length r = Some (Inr n) \<and> \<not> truediv_overflows n) \<and>
    open_error d = Some e"
  then show "run w (Inr r) d f0 = ([Result (failure_text w e)], f0)"
    by (auto simp: run_def download_def content_def)
next
  assume "content_length r = None \<and> stream_error r = None \<and> open_error d = None"
  then show "case close_error d of
         Some e2 \<Rightarrow>
           run w (Inr r) d f0 =
             ([Result (failure_text w e2)], Some (take (flushed d) (concat (chunks r))))
       | None \<Rightarrow>
           (case write_error d 0 of
              Some e1 \<Rightarrow>
                run w (Inr r) d f0 =
                  ([Result (failure_text w e1)], Some (take (flushed d) (concat (chunks r))))
            | None \<Rightarrow>
                (\<exists>a. run w (Inr r) d f0 =
                   ([Progress a a (file_name w) (bar_index w), Result (success_text w)],
                    Some (concat (chunks r)))))"
    using run_no_header [of r d w f0] by blast
next
  assume "content_length r = Some (Inr n) \<and> \<not> truediv_overflows n \<and> open_error d = None \<and>
    k < length (chunks r) \<and> (\<forall>i < k. write_error d i = None) \<and> write_error d k = Some e"
  then show "\<exists>ps. length ps = k \<and> list_all (progress_of w) ps \<and>
         run w (Inr r) d f0 =
           (ps @ [Result (failure_text w (case close_error d of None \<Rightarrow> e | Some e2 \<Rightarrow> e2))],
            Some (take (flushed d) (concat (take (Suc k) (chunks r)))))"
    using run_write_raised [of r n d k e w f0] by blast
next
  assume "content_length r = Some (Inr n) \<and> \<not> truediv_overflows n \<and> open_error d = None \<and>
    (\<forall>i < length (chunks r). write_error d i = None)"
  then show "\<exists>ps. length ps = length (chunks r) \<and> list_all (progress_of w) ps \<and>
         run w (Inr r) d f0 =
           (case close_error d of
              Some e2 \<Rightarrow>
                (ps @ [Result (failure_text w e2)],
                 Some (take (flushed d) (concat (chunks r))))
            | None \<Rightarrow>
                (case stream_error r of
                   Some e1 \<Rightarrow> (ps @ [Result (failure_text w e1)], Some (concat (chunks r)))
                 | None \<Rightarrow> (ps @ [Result (success_text w)], Some (concat (chunks r)))))"
    using run_all_written [of r n d w f0] by blast
qed

text \<open>
  Four instances: a request that times out; a connection reset after two chunks, which
  stay on disk; a full disk on which both writes are buffered and the close fails,
  leaving an empty file after two progress signals; and a second write that fails after
  the first chunk has reached the disk.
\<close>

theorem run_reports_witness:
  "run wA (Inl ''timed out'') disk_ok None = ([Result ''Error downloading A: timed out''], None) \<and>
   ((content_length resp_reset = Some (Inr 10) \<and> \<not> truediv_overflows 10 \<and>
     open_error disk_ok = None \<and> (\<forall>i. write_error disk_ok i = None)) \<and>
    (\<exists>ps. length ps = length (chunks resp_reset) \<and> list_all (progress_of wA) ps \<and>
       run wA (Inr resp_reset) disk_ok None =
         (ps @ [Result ''Error downloading A: Connection reset''], Some ''abcdefgh''))) \<and>
   ((content_length resp_8 = Some (Inr 8) \<and> \<not> truediv_overflows 8 \<and>
     open_error disk_full = None \<and> (\<forall>i. write_error disk_full i = None)) \<and>
    (\<exists>ps. length ps = length (chunks resp_8) \<and> list_all (progress_of wA) ps \<and>
       run wA (Inr resp_8) disk_full None =
         (ps @ [Result ''Error downloading A: [Errno 28] No space left on device''], Some []))) \<and>
   ((open_error disk_bad_write = None \<and> 1 < length (chunks resp_8) \<and>
     write_error disk_bad_write 0 = None \<and>
     write_error disk_bad_write 1 = Some ''[Errno 5] Input/output error'') \<and>
    (\<exists>ps. length ps = 1 \<and> list_all (progress_of wA) ps \<and>
       run wA (Inr resp_8) disk_bad_write None =
         (ps @ [Result ''Error downloading A: [Errno 5] Input/output error''], Some ''abcd'')))"
proof -
  have o10: "\<not> truediv_overflows 10" and o8: "\<not> truediv_overflows 8"
    by (simp_all add: truediv_overflows_def)
  note t1 = run_reports [of wA "Inl ''timed out''" disk_ok None "''timed out''" resp_8 8 0]
  note t2 = run_reports [of wA "Inr resp_reset" disk_ok None "[]" resp_reset 10 0]
  note t3 = run_reports [of wA "Inr resp_8" disk_full None "[]" resp_8 8 0]
  note t4 = run_reports [of wA "Inr resp_8" disk_bad_write None
      "''[Errno 5] Input/output error''" resp_8 8 1]
  have a: "run wA (Inl ''timed out'') disk_ok None =
      ([Result ''Error downloading A: timed out''], None)"
    using t1 [THEN conjunct2, THEN conjunct1] by (simp add: wA_def)
  have hb: "content_length resp_reset = Some (Inr 10) \<and> \<not> truediv_overflows 10 \<and>
     open_error disk_ok = None \<and> (\<forall>i. write_error disk_ok i = None)"
    using o10 by (simp add: resp_reset_def disk_ok_def)
  then have hb': "content_length resp_reset = Some (Inr 10) \<and> \<not> truediv_overflows 10 \<and>
     open_error disk_ok = None \<and>
     (\<forall>i < length (chunks resp_reset). write_error disk_ok i = None)"
    by simp
  have b: "\<exists>ps. length ps = length (chunks resp_reset) \<and> list_all (progress_of wA) ps \<and>
       run wA (Inr resp_reset) disk_ok None =
         (ps @ [Result ''Error downloading A: Connection reset''], Some ''abcdefgh'')"
    using t2 [THEN conjunct2, THEN conjunct2, THEN conjunct2, THEN conjunct2, THEN conjunct2,
        THEN conjunct2, THEN conjunct2, THEN conjunct2, THEN mp, OF hb']
    by (simp add: wA_def resp_reset_def disk_ok_def)
  have hc: "content_length resp_8 = Some (Inr 8) \<and> \<not> truediv_overflows 8 \<and>
     open_error disk_full = None \<and> (\<forall>i. write_error disk_full i = None)"
    using o8 by (simp add: resp_8_def disk_full_def)
  then have hc': "content_length resp_8 = Some (Inr 8) \<and> \<not> truediv_overflows 8 \<and>
     open_error disk_full = None \<and>
     (\<forall>i < length (chunks resp_8). write_error disk_full i = None)"
    by simp
  have c: "\<exists>ps. length ps = length (chunks resp_8) \<and> list_all (progress_of wA) ps \<and>
       run wA (Inr resp_8) disk_full None =
         (ps @ [Result ''Error downloading A: [Errno 28] No space left on device''], Some [])"
    using t3 [THEN conjunct2, THEN conjunct2, THEN conjunct2, THEN conjunct2, THEN conjunct2,
        THEN conjunct2, THEN conjunct2, THEN conjunct2, THEN mp, OF hc']
    by (simp add: wA_def resp_8_def disk_full_def)
  have hd: "open_error disk_bad_write = None \<and> 1 < length (chunks resp_8) \<and>
     write_error disk_bad_write 0 = None \<and>
     write_error disk_bad_write 1 = Some ''[Errno 5] Input/output error''"
    by (simp add: resp_8_def disk_bad_write_def)
  have hd': "content_length resp_8 = Some (Inr 8) \<and> \<not> truediv_overflows 8 \<and>
     open_error disk_bad_write = None \<and> 1 < length (chunks resp_8) \<and>
     (\<forall>i < 1. write_error disk_bad_write i = None) \<and>
     write_error disk_bad_write 1 = Some ''[Errno 5] Input/output error''"
    using o8 by (simp add: resp_8_def disk_bad_write_def)
  have d: "\<exists>ps. length ps = 1 \<and> list_all (progress_of wA) ps \<and>
       run wA (Inr resp_8) disk_bad_write None =
         (ps @ [Result ''Error downloading A: [Errno 5] Input/output error''], Some ''abcd'')"
    using t4 [THEN conjunct2, THEN conjunct2, THEN conjunct2, THEN conjunct2, THEN conjunct2,
        THEN conjunct2, THEN conjunct2, THEN conjunct1, THEN mp, OF hd']
    by (simp add: wA_def resp_8_def disk_bad_write_def)
  show ?thesis
    by (rule conjI [OF a conjI [OF conjI [OF hb b] conjI [OF conjI [OF hc c] conjI [OF hd d]]]])
qed

subsection \<open>C6: the status code of the answer\<close>

text \<open>
  C6 fails on the code: \<open>run\<close> never reads the status code (\<open>run_ignores_status\<close>). On a
  404 answer whose body is \<open>Not Found\<close> the worker writes the body to the destination and
  reports \<open>Finished downloading A\<close>; no failure is reported.
\<close>

theorem non_2xx_reported_finished:
  "run wA (Inr resp_404) disk_ok None =
     ([Progress (9 / (1024 * 1024)) (9 / (1024 * 1024)) ''A'' 0,
       Result ''Finished downloading A''], Some ''Not Found'')"
  by (simp add: run_def download_def content_def close_file_def resp_404_def disk_ok_def wA_def)

subsection \<open>C5: the progress computation\<close>

text \<open>
  C5 fails on the code: \<open>update_progress\<close> divides by \<open>total_mb\<close> without a guard
  (\<open>update_progress_zero\<close>). An answer without a content length and with an empty body
  makes the worker emit the progress signal \<open>(0, 0)\<close>, on which \<open>update_progress\<close> raises
  \<open>ZeroDivisionError\<close>.
\<close>

theorem progress_division_by_zero:
  "run wA (Inr resp_empty) disk_ok None =
     ([Progress 0 0 ''A'' 0, Result ''Finished downloading A''], Some []) \<and>
   update_progress 0 0 0 ''A'' = Inl ZeroDivisionError"
  by (simp add: run_def download_def content_def close_file_def resp_empty_def disk_ok_def
      wA_def update_progress_def)

section \<open>Claims about \<open>go_to_stage5\<close>\<close>

subsection \<open>C8: the cache\<close>

text \<open>
  C8 fails on the code: \<open>go_to_stage5\<close> never reads \<open>use_cache\<close>. With the box checked and
  the file of item \<open>A\<close> already at \<open>cache/Movies/A.mp4\<close>, the cache folder is removed, a
  worker is started for \<open>A\<close>, and \<open>completed_downloads\<close> is 0 when \<open>go_to_stage5\<close> returns.
\<close>

theorem cache_not_used:
  "use_cache ((init_app [''cache'', ''cache/Movies'', ''cache/Movies/A.mp4''])
       \<lparr>selected_content_items := [itA]\<rparr>) \<and>
   task_of itA = (''https://cdn.skyy.cc/a.mp4'', ''cache/Movies/A.mp4'', ''A'') \<and>
   (case go_to_stage5 os_ok
           ((init_app [''cache'', ''cache/Movies'', ''cache/Movies/A.mp4''])
              \<lparr>selected_content_items := [itA]\<rparr>) of
      Inl e \<Rightarrow> False
    | Inr s \<Rightarrow> ''cache/Movies/A.mp4'' \<notin> set (fs s) \<and>
               threadpool s = [wA] \<and> completed_downloads s = 0 \<and> stage6_calls s = 0)"
  by (simp add: go_to_stage5_def rmtree_def os_ok_def sched_defs itA_def wA_def upt_conv_Cons)

subsection \<open>C9: the tasks built from the selection\<close>

text \<open>
  Counterexample to C9 as stated: the item \<open>B\<close> has the file type \<open>MKV\<close>, and its
  destination is \<open>cache/Movies/B.mp4\<close>.
\<close>

theorem extension_counterexample:
  "filetype itB = ''MKV'' \<and>
   fst (snd (task_of itB)) = ''cache/Movies/B.mp4'' \<and>
   fst (snd (task_of itB)) \<noteq> ''cache/Movies/B.MKV'' \<and>
   fst (snd (task_of itB)) \<noteq> ''cache/Movies/B.mkv''"
  by (simp add: task_of_def cache_folder_def itB_def)

text \<open>
  C9, amended. When the cache folders can be created, \<open>go_to_stage5\<close> does not raise, and
  the tasks it has started or queued are, in the order of the selection, one per
  selected item: the URL is the fixed base \<open>https://cdn.skyy.cc\<close> followed by \<open>/\<close> and the
  item's \<open>url\<close>, the destination is \<open>cache/<category>/<title>.mp4\<close> with the fixed
  extension \<open>mp4\<close> whatever the item's file type, and the display name is the title.
\<close>

theorem tasks_of_selection:
  assumes "\<not> rmtree_fails os" and "\<not> mkdir_fails os"
  shows "\<exists>s'. go_to_stage5 os s = Inr s' \<and>
           map (\<lambda>w. (worker_url w, file_path w, file_name w)) (active_downloads s') @
             download_queue s' =
           map (\<lambda>it. (''https://cdn.skyy.cc'' @ ''/'' @ url it,
                       ''cache'' @ ''/'' @ category it @ ''/'' @ title it @ ''.mp4'',
                       title it))
               (selected_content_items s)"
proof -
  have t: "task_of = (\<lambda>it. (''https://cdn.skyy.cc'' @ ''/'' @ url it,
                       ''cache'' @ ''/'' @ category it @ ''/'' @ title it @ ''.mp4'',
                       title it))"
    by (rule ext) (simp add: task_of_def cache_folder_def)
  from assms rmtree_removes [of cache_folder "fs s"] show ?thesis
    by (simp add: go_to_stage5_def Let_def start_downloads_eq fields_mk_workers t)
qed

text \<open>An instance: the items \<open>A\<close> and \<open>B\<close>.\<close>

theorem tasks_of_selection_witness:
  "\<not> rmtree_fails os_ok \<and> \<not> mkdir_fails os_ok \<and>
   (\<exists>s'. go_to_stage5 os_ok ((init_app [])\<lparr>selected_content_items := [itA, itB]\<rparr>) = Inr s' \<and>
      map (\<lambda>w. (worker_url w, file_path w, file_name w)) (active_downloads s') @
        download_queue s' =
      [(''https://cdn.skyy.cc/a.mp4'', ''cache/Movies/A.mp4'', ''A''),
       (''https://cdn.skyy.cc/b.mkv'', ''cache/Movies/B.mp4'', ''B'')])"
proof -
  have h1: "\<not> rmtree_fails os_ok" and h2: "\<not> mkdir_fails os_ok"
    by (simp_all add: os_ok_def)
  from tasks_of_selection [OF h1 h2, of "(init_app [])\<lparr>selected_content_items := [itA, itB]\<rparr>"]
    h1 h2 show ?thesis
    by (simp add: init_app_def itA_def itB_def)
qed

section \<open>Claims about \<open>fetch_data\<close>\<close>

subsection \<open>C10: the processed catalog\<close>

text \<open>
  C10. On a status other than 200 \<open>fetch_data\<close> returns the empty mapping and raises
  nothing. On the status 200 with the parsed catalog \<open>data\<close> it returns a mapping whose
  keys are the raw keys capitalized (by \<open>str.capitalize\<close>), and every item of every
  category comes from a raw item of a raw key with that capitalized form: its \<open>category\<close>
  is the capitalized key, \<open>filetype\<close> is the raw file type in upper case (by
  \<open>str.upper\<close>), \<open>title\<close>, \<open>duration\<close>, \<open>filetype\<close> and \<open>url\<close> default to the empty string,
  \<open>size_gb\<close> defaults to 0, and \<open>size\<close> is the text of \<open>size_gb\<close> followed by \<open>GB\<close> (so \<open>0GB\<close>
  for an absent \<open>size_gb\<close>). This holds whatever \<open>str.capitalize\<close>, \<open>str.upper\<close> and the
  printing of floats do on the strings and numbers of the catalog.
\<close>

theorem fetch_data_items:
  "(catalog_status r \<noteq> 200 \<longrightarrow> fetch_data py (Inr r) = Inr Map.empty) \<and>
   (catalog_status r = 200 \<and> catalog_json r = Inr data \<longrightarrow>
      (\<exists>processed. fetch_data py (Inr r) = Inr processed \<and>
         dom processed = capitalize py ` fst ` set data \<and>
         (\<forall>k its it. processed k = Some its \<and> it \<in> set its \<longrightarrow>
            (\<exists>rk raws raw. (rk, raws) \<in> set data \<and> raw \<in> set raws \<and>
               k = capitalize py rk \<and> category it = capitalize py rk \<and>
               title it = (case raw_title raw of None \<Rightarrow> [] | Some x \<Rightarrow> x) \<and>
               duration it = (case raw_duration raw of None \<Rightarrow> [] | Some x \<Rightarrow> x) \<and>
               filetype it = upper py (case raw_filetype raw of None \<Rightarrow> [] | Some x \<Rightarrow> x) \<and>
               url it = (case raw_url raw of None \<Rightarrow> [] | Some x \<Rightarrow> x) \<and>
               size_gb it = (case raw_size_gb raw of None \<Rightarrow> JInt 0 | Some x \<Rightarrow> x) \<and>
               size_field it = str_number (float_repr py) (size_gb it) @ ''GB'' \<and>
               (raw_size_gb raw = None \<longrightarrow> size_field it = ''0GB'')))))"
proof (intro conjI impI)
  assume "catalog_status r \<noteq> 200"
  then show "fetch_data py (Inr r) = Inr Map.empty" by (simp add: fetch_data_def)
next
  assume a: "catalog_status r = 200 \<and> catalog_json r = Inr data"
  let ?p = "process_categories py data Map.empty"
  have f: "fetch_data py (Inr r) = Inr ?p" using a by (simp add: fetch_data_def)
  have d: "dom ?p = capitalize py ` fst ` set data" by (simp add: process_categories_dom)
  have "\<exists>rk raws raw. (rk, raws) \<in> set data \<and> raw \<in> set raws \<and>
               k = capitalize py rk \<and> category it = capitalize py rk \<and>
               title it = (case raw_title raw of None \<Rightarrow> [] | Some x \<Rightarrow> x) \<and>
               duration it = (case raw_duration raw of None \<Rightarrow> [] | Some x \<Rightarrow> x) \<and>
               filetype it = upper py (case raw_filetype raw of None \<Rightarrow> [] | Some x \<Rightarrow> x) \<and>
               url it = (case raw_url raw of None \<Rightarrow> [] | Some x \<Rightarrow> x) \<and>
               size_gb it = (case raw_size_gb raw of None \<Rightarrow> JInt 0 | Some x \<Rightarrow> x) \<and>
               size_field it = str_number (float_repr py) (size_gb it) @ ''GB'' \<and>
               (raw_size_gb raw = None \<longrightarrow> size_field it = ''0GB'')"
    if h: "?p k = Some its \<and> it \<in> set its" for k its it
  proof -
    from h process_categories_Some [of py data Map.empty k its] obtain rk raws where
      m: "(rk, raws) \<in> set data" and k: "k = capitalize py rk"
      and i: "its = map (process_item py k) raws" by auto
    from h i obtain raw where r: "raw \<in> set raws" and it: "it = process_item py k raw"
      by auto
    have z: "str_number (float_repr py) (JInt 0) = ''0''"
      by (simp add: str_number_def digits.simps char_of_def bit_0)
    from m r k it z show ?thesis
      by (intro exI [of _ rk] exI [of _ raws] exI [of _ raw])
        (simp add: process_item_def dict_get_def)
  qed
  with f d show "\<exists>processed. fetch_data py (Inr r) = Inr processed \<and>
         dom processed = capitalize py ` fst ` set data \<and>
         (\<forall>k its it. processed k = Some its \<and> it \<in> set its \<longrightarrow>
            (\<exists>rk raws raw. (rk, raws) \<in> set data \<and> raw \<in> set raws \<and>
               k = capitalize py rk \<and> category it = capitalize py rk \<and>
               title it = (case raw_title raw of None \<Rightarrow> [] | Some x \<Rightarrow> x) \<and>
               duration it = (case raw_duration raw of None \<Rightarrow> [] | Some x \<Rightarrow> x) \<and>
               filetype it = upper py (case raw_filetype raw of None \<Rightarrow> [] | Some x \<Rightarrow> x) \<and>
               url it = (case raw_url raw of None \<Rightarrow> [] | Some x \<Rightarrow> x) \<and>
               size_gb it = (case raw_size_gb raw of None \<Rightarrow> JInt 0 | Some x \<Rightarrow> x) \<and>
               size_field it = str_number (float_repr py) (size_gb it) @ ''GB'' \<and>
               (raw_size_gb raw = None \<longrightarrow> size_field it = ''0GB'')))"
    by blast
qed

text \<open>
  An instance: the catalog \<open>catalog_ok\<close>, whose key \<open>mOVIES\<close> becomes \<open>Movies\<close> and whose
  file type \<open>mp4\<close> becomes \<open>MP4\<close>.
\<close>

theorem fetch_data_items_witness:
  "catalog_status catalog_ok = 200 \<and>
   (\<exists>processed. fetch_data (ascii_python (\<lambda>x. [])) (Inr catalog_ok) = Inr processed \<and>
      dom processed = {''Movies''} \<and>
      processed ''Movies'' =
        Some [\<lparr>category = ''Movies'', title = ''A'', duration = [], filetype = ''MP4'',
                size_field = ''12GB'', size_gb = JInt 12, url = ''a.mp4''\<rparr>,
              \<lparr>category = ''Movies'', title = [], duration = [], filetype = [],
                size_field = ''0GB'', size_gb = JInt 0, url = []\<rparr>])"
proof -
  let ?data = "[(''mOVIES'',
        [\<lparr>raw_title = Some ''A'', raw_duration = None, raw_filetype = Some ''mp4'',
          raw_size_gb = Some (JInt 12), raw_url = Some ''a.mp4''\<rparr>,
         \<lparr>raw_title = None, raw_duration = None, raw_filetype = None,
          raw_size_gb = None, raw_url = None\<rparr>])]"
  let ?py = "ascii_python (\<lambda>x. [])"
  have h: "catalog_status catalog_ok = 200 \<and> catalog_json catalog_ok = Inr ?data"
    by (simp add: catalog_ok_def)
  have c: "capitalize ?py ''mOVIES'' = ''Movies''"
    by (simp add: ascii_python_def ascii_capitalize_def char_upper_def char_lower_def
        char_of_def bit_0)
  from fetch_data_items [of catalog_ok ?py ?data] h obtain processed where
    f: "fetch_data ?py (Inr catalog_ok) = Inr processed"
    and d: "dom processed = capitalize ?py ` fst ` set ?data"
    by blast
  from d c have d': "dom processed = {''Movies''}" by simp
  from f have "processed ''Movies'' =
        Some [\<lparr>category = ''Movies'', title = ''A'', duration = [], filetype = ''MP4'',
                size_field = ''12GB'', size_gb = JInt 12, url = ''a.mp4''\<rparr>,
              \<lparr>category = ''Movies'', title = [], duration = [], filetype = [],
                size_field = ''0GB'', size_gb = JInt 0, url = []\<rparr>]"
    by (auto simp: fetch_data_def catalog_ok_def c process_item_def dict_get_def
        ascii_python_def ascii_upper_def ascii_capitalize_def char_lower_def
        char_upper_def str_number_def digits.simps char_of_def bit_0)
  with h f d' show ?thesis by blast
qed

end
